theory Spec2Isabelle
  imports
    Complex_Main
    "HOL-Library.AList"
    "HOL-Library.Char_ord"
    "HOL-Library.List_Lexorder"
    "HOL-Library.Multiset"
begin

section \<open>The balance ledger (database/database\_manager.py)\<close>

text \<open>
  The \<open>users\<close> table and the three columns of the \<open>economy\<close> table that
  \<open>update_balance\<close> touches. The schema puts no \<open>CHECK\<close> constraint on
  \<open>balance\<close>. Amounts are reals: \<open>add_player\<close> passes the integer \<open>-bet\<close>,
  \<open>cashout_player\<close> passes the product \<open>bet * current_multiplier\<close>. A failing
  database connection (\<open>aiosqlite.Error\<close>) is outside the model: every statement runs.
\<close>

type_synonym user_id = int

record economy_row =
  balance :: real
  total_earned :: real
  total_spent :: real

record database =
  users :: "user_id set"
  economy :: "user_id \<rightharpoonup> economy_row"

text \<open>\<open>UPDATE economy SET ... WHERE user_id = ?\<close>: changes the row when there is one.\<close>

definition sql_update ::
  "(user_id \<rightharpoonup> economy_row) \<Rightarrow> user_id \<Rightarrow> (economy_row \<Rightarrow> economy_row) \<Rightarrow> (user_id \<rightharpoonup> economy_row)"
where
  "sql_update tbl uid f = (case tbl uid of None \<Rightarrow> tbl | Some row \<Rightarrow> tbl(uid \<mapsto> f row))"

text \<open>
  \<open>get_user_profile\<close>: \<open>SELECT ... FROM users u LEFT JOIN economy e ... WHERE u.user_id = ?\<close>;
  a row comes back exactly when the user is in \<open>users\<close>.
\<close>

definition get_user_profile :: "database \<Rightarrow> user_id \<Rightarrow> (user_id \<times> economy_row option) option" where
  "get_user_profile db uid = (if uid \<in> users db then Some (uid, economy db uid) else None)"

definition get_user_balance :: "database \<Rightarrow> user_id \<Rightarrow> real" where
  "get_user_balance db uid = (case economy db uid of Some row \<Rightarrow> balance row | None \<Rightarrow> 0)"

definition update_balance :: "database \<Rightarrow> user_id \<Rightarrow> real \<Rightarrow> bool \<times> database" where
  "update_balance db uid amount =
     (if get_user_profile db uid = None then (False, db)
      else if amount > 0 then
        (True, db\<lparr>economy := sql_update (economy db) uid
           (\<lambda>row. row\<lparr>balance := balance row + amount, total_earned := total_earned row + amount\<rparr>)\<rparr>)
      else
        (let spent_amount = \<bar>amount\<bar> in
         (True, db\<lparr>economy := sql_update (economy db) uid
           (\<lambda>row. row\<lparr>balance := balance row + amount, total_spent := total_spent row + spent_amount\<rparr>)\<rparr>)))"

section \<open>The Crash round (cogs/games/crash.py)\<close>

definition MIN_MULTIPLIER :: real where
  "MIN_MULTIPLIER = 1.0"

definition MAX_PLAYERS :: nat where
  "MAX_PLAYERS = 20"

text \<open>
  One entry of \<open>self.players\<close> (the \<open>user\<close> member object is display data and left
  out), and the fields of \<open>CrashGameInstance\<close> that the game logic reads and writes.
  \<open>players\<close> is a Python dict: an association list in insertion order with distinct keys.
  Python floats are modelled as reals.
\<close>

record player =
  bet :: int
  cashout_at :: "real option"

record game =
  players :: "(user_id \<times> player) list"
  crashed_at :: real
  current_multiplier :: real
  is_betting_open :: bool
  is_running :: bool

text \<open>
  \<open>_get_crash_point\<close>, with the two draws of \<open>random.random()\<close> as arguments
  \<open>r\<close> and \<open>p\<close>, each in \<open>[0, 1)\<close>.
\<close>

definition get_crash_point :: "real \<Rightarrow> real \<Rightarrow> real" where
  "get_crash_point r p =
     (if r < 0.01 then 1.00
      else (let e = 2 ^ 32; house_edge = 0.99
            in (e * house_edge - p * e) / (e - p * e)))"

text \<open>\<open>CrashGameInstance.__init__\<close>.\<close>

definition init_game :: "real \<Rightarrow> real \<Rightarrow> game" where
  "init_game r p =
     \<lparr>players = [], crashed_at = get_crash_point r p, current_multiplier = 1.0,
      is_betting_open = True, is_running = False\<rparr>"

datatype join_reply =
    BettingPhaseOver
  | AlreadyJoined
  | GameFull
  | NotEnoughFunds
  | JoinedWithBet int

text \<open>
  \<open>add_player\<close> suspends once, at \<open>await self.bot.db.update_balance(user.id, -bet)\<close>,
  and other handlers of the round (the timeout that calls \<open>lock_bets\<close>, other joins) can
  run before it resumes. The function is therefore cut at that await.

  \<open>add_player_guards\<close> is the part before the await: the three tests on the round as it
  is when the call starts. \<open>Some\<close> is the rejection sent; \<open>None\<close> means the call goes
  on to the debit.
\<close>

definition add_player_guards :: "game \<Rightarrow> user_id \<Rightarrow> join_reply option" where
  "add_player_guards g uid =
     (if \<not> is_betting_open g then Some BettingPhaseOver
      else if map_of (players g) uid \<noteq> None then Some AlreadyJoined
      else if length (players g) \<ge> MAX_PLAYERS then Some GameFull
      else None)"

text \<open>
  \<open>add_player_resume\<close> is the part from the await on: the debit and, when it returns
  true, the assignment \<open>self.players[user.id] = ...\<close>. Its round and ledger are those
  found when the call resumes; no flag is tested again.
\<close>

definition add_player_resume :: "game \<Rightarrow> database \<Rightarrow> user_id \<Rightarrow> int \<Rightarrow> join_reply \<times> game \<times> database" where
  "add_player_resume g db uid b =
     (case update_balance db uid (- real_of_int b) of
        (False, db') \<Rightarrow> (NotEnoughFunds, g, db')
      | (True, db') \<Rightarrow>
          (JoinedWithBet b,
           g\<lparr>players := AList.update uid \<lparr>bet = b, cashout_at = None\<rparr> (players g)\<rparr>,
           db'))"

text \<open>\<open>add_player\<close> when nothing else runs during its await.\<close>

definition add_player :: "game \<Rightarrow> database \<Rightarrow> user_id \<Rightarrow> int \<Rightarrow> join_reply \<times> game \<times> database" where
  "add_player g db uid b =
     (case add_player_guards g uid of
        Some reply \<Rightarrow> (reply, g, db)
      | None \<Rightarrow> add_player_resume g db uid b)"

datatype cashout_reply =
    NotInActiveGame
  | AlreadyCashedOut
  | CashedOut real real

text \<open>
  \<open>cashout_player\<close>; \<open>CashedOut m w\<close> is the reply "You cashed out at m and won w".
  The result of the credit is not looked at by the source.
\<close>

definition cashout_player :: "game \<Rightarrow> database \<Rightarrow> user_id \<Rightarrow> cashout_reply \<times> game \<times> database" where
  "cashout_player g db uid =
     (if \<not> is_running g then (NotInActiveGame, g, db)
      else (case map_of (players g) uid of
              None \<Rightarrow> (NotInActiveGame, g, db)
            | Some pl \<Rightarrow>
                if cashout_at pl \<noteq> None then (AlreadyCashedOut, g, db)
                else
                  (let g' = g\<lparr>players :=
                              AList.update uid (pl\<lparr>cashout_at := Some (current_multiplier g)\<rparr>) (players g)\<rparr>;
                       winnings = real_of_int (bet pl) * current_multiplier g
                   in (CashedOut (current_multiplier g) winnings, g', snd (update_balance db uid winnings)))))"

text \<open>\<open>ease_in_cubic\<close> (utils/easing.py).\<close>

definition ease_in_cubic :: "real \<Rightarrow> real" where
  "ease_in_cubic x = x * x * x"

text \<open>
  What a round sends to its message: the cancellation embed of \<open>lock_bets\<close>, and the
  two kinds of \<open>_update_game_embed\<close> (with the graph data drawn and the number shown).
\<close>

datatype effect =
    GameCancelled
  | ProgressFrame "real list" real
  | FinalFrame "real list" real

definition duration :: real where
  "duration = 5"

text \<open>
  The \<open>while\<close> loop of \<open>run_game\<close>. Each iteration reads the clock once; the list
  holds the successive values of \<open>time.time() - start_time_loop\<close>. When the readings
  run out while the loop condition still holds, the loop has not returned: \<open>None\<close>.
\<close>

fun run_loop :: "real list \<Rightarrow> game \<Rightarrow> real list \<Rightarrow> (game \<times> real list \<times> effect list) option" where
  "run_loop [] g graph_data =
     (if current_multiplier g < crashed_at g then None else Some (g, graph_data, []))"
| "run_loop (elapsed # ts) g graph_data =
     (if current_multiplier g < crashed_at g then
        (let progress = min (elapsed / duration) 1.0;
             eased_progress = ease_in_cubic progress;
             m = min (1 + (crashed_at g - 1) * eased_progress) (crashed_at g);
             g' = g\<lparr>current_multiplier := m\<rparr>;
             graph_data' = graph_data @ [m]
         in if length graph_data' mod 3 \<noteq> 0 \<and> m < crashed_at g then run_loop ts g' graph_data'
            else (case run_loop ts g' graph_data' of
                    None \<Rightarrow> None
                  | Some (g'', graph_data'', effs) \<Rightarrow>
                      Some (g'', graph_data'', ProgressFrame graph_data' m # effs)))
      else Some (g, graph_data, []))"

text \<open>\<open>_payout_losers\<close>: its body is \<open>pass\<close>.\<close>

definition payout_losers :: "game \<Rightarrow> database \<Rightarrow> database" where
  "payout_losers g db = db"

definition run_game :: "real list \<Rightarrow> game \<Rightarrow> database \<Rightarrow> (game \<times> database \<times> effect list) option" where
  "run_game ts g db =
     (case run_loop ts (g\<lparr>is_running := True\<rparr>) [1.0] of
        None \<Rightarrow> None
      | Some (g', graph_data, effs) \<Rightarrow>
          (let g'' = g'\<lparr>is_running := False\<rparr>
           in Some (g'', payout_losers g'' db, effs @ [FinalFrame graph_data (crashed_at g'')])))"

definition lock_bets :: "real list \<Rightarrow> game \<Rightarrow> database \<Rightarrow> (game \<times> database \<times> effect list) option" where
  "lock_bets ts g db =
     (let g' = g\<lparr>is_betting_open := False\<rparr>
      in if players g' = [] then Some (g', db, [GameCancelled]) else run_game ts g' db)"

text \<open>Two calls of \<open>lock_bets\<close> on the same round, one after the other.\<close>

definition lock_bets_twice ::
  "real list \<Rightarrow> real list \<Rightarrow> game \<Rightarrow> database \<Rightarrow> (game \<times> database \<times> effect list) option"
where
  "lock_bets_twice ts ts' g db =
     (case lock_bets ts g db of
        None \<Rightarrow> None
      | Some (g1, db1, effs1) \<Rightarrow>
          (case lock_bets ts' g1 db1 of
             None \<Rightarrow> None
           | Some (g2, db2, effs2) \<Rightarrow> Some (g2, db2, effs1 @ effs2)))"

text \<open>
  The \<open>/crash\<close> command of the \<open>Crash\<close> cog. \<open>active_games\<close> is the dict from guild id
  to round; \<open>interaction.guild_id\<close> is \<open>None\<close> outside a guild. A registered
  \<open>CrashGameInstance\<close> is a truthy object, so the test is the two flags.
\<close>

type_synonym guild_id = "int option"

datatype crash_reply =
    AlreadyInProgress
  | BettingStarted

definition crash ::
  "(guild_id \<rightharpoonup> game) \<Rightarrow> guild_id \<Rightarrow> real \<Rightarrow> real \<Rightarrow> crash_reply \<times> (guild_id \<rightharpoonup> game)"
where
  "crash active_games gid r p =
     (if (case active_games gid of None \<Rightarrow> False | Some g \<Rightarrow> is_running g \<or> is_betting_open g)
      then (AlreadyInProgress, active_games)
      else (BettingStarted, active_games(gid \<mapsto> init_game r p)))"

section \<open>The stock tracker (cogs/roblox\_tracker.py)\<close>

text \<open>
  The \<open>data\<close> object of a feed message. An item is a JSON object with an optional
  \<open>name\<close> (absent: \<open>None\<close>) and a quantity. \<open>categories\<close> holds the keys of \<open>data\<close>
  whose value is an array of items, \<open>weather\<close> the value under the key \<open>weather\<close>,
  and \<open>other_keys\<close> says whether \<open>data\<close> has further keys (\<open>weatherHistory\<close>, ...).
  Strings are byte strings (UTF-8), compared and ordered byte by byte, which is the order
  of the code points.
\<close>

record item =
  name :: "string option"
  quantity :: int

datatype weather_field =
    NoWeather
  | NotADict
  | WeatherDict "string option"

record stock_data =
  categories :: "(string \<times> item list) list"
  weather :: weather_field
  other_keys :: bool

text \<open>\<open>not data\<close>: the dict has no key at all.\<close>

definition data_empty :: "stock_data \<Rightarrow> bool" where
  "data_empty data = (categories data = [] \<and> weather data = NoWeather \<and> \<not> other_keys data)"

text \<open>\<open>data.get(category, [])\<close>.\<close>

definition get_items :: "stock_data \<Rightarrow> string \<Rightarrow> item list" where
  "get_items data category = (case map_of (categories data) category of None \<Rightarrow> [] | Some items \<Rightarrow> items)"

text \<open>\<open>item.get('name')\<close> as a condition: the key is there and the string is not empty.\<close>

definition has_name :: "item \<Rightarrow> bool" where
  "has_name it = (case name it of None \<Rightarrow> False | Some n \<Rightarrow> n \<noteq> [])"

text \<open>\<open>item.get('name', '')\<close>.\<close>

definition get_name :: "item \<Rightarrow> string" where
  "get_name it = (case name it of None \<Rightarrow> [] | Some n \<Rightarrow> n)"

text \<open>\<open>str.lower\<close> and \<open>str.title\<close>, on the ASCII letters.\<close>

definition lower_char :: "char \<Rightarrow> char" where
  "lower_char c =
     (case map_of (zip ''ABCDEFGHIJKLMNOPQRSTUVWXYZ'' ''abcdefghijklmnopqrstuvwxyz'') c of
        None \<Rightarrow> c | Some l \<Rightarrow> l)"

definition upper_char :: "char \<Rightarrow> char" where
  "upper_char c =
     (case map_of (zip ''abcdefghijklmnopqrstuvwxyz'' ''ABCDEFGHIJKLMNOPQRSTUVWXYZ'') c of
        None \<Rightarrow> c | Some u \<Rightarrow> u)"

definition lower :: "string \<Rightarrow> string" where
  "lower s = map lower_char s"

definition is_letter :: "char \<Rightarrow> bool" where
  "is_letter c = (lower_char c \<noteq> c \<or> upper_char c \<noteq> c)"

fun title_from :: "bool \<Rightarrow> string \<Rightarrow> string" where
  "title_from after_letter [] = []"
| "title_from after_letter (c # cs) =
     (if is_letter c then (if after_letter then lower_char c else upper_char c) # title_from True cs
      else c # title_from False cs)"

definition title :: "string \<Rightarrow> string" where
  "title s = title_from False s"

definition NOTABLE_SEEDS :: "string list" where
  "NOTABLE_SEEDS =
     [''Beanstalk'', ''Moon Blossom'', ''Hive Fruit'', ''Sugar Apple'', ''Elephant Ears'', ''Ember Lily'',
      ''Cacao'', ''Sunflower'', ''Pepper'', ''Grape'', ''Mushroom'', ''Traveler's Fruit'', ''Rosy Delight'',
      ''Dragon Pepper'', ''Lotus'', ''Firework Flower'', ''Candy Blossom'']"

definition NOTABLE_GEAR :: "string list" where
  "NOTABLE_GEAR =
     [''Advanced Sprinkler'', ''Star Caller'', ''Night Staff'', ''Godly Sprinkler'',
      ''Chocolate Sprinkler'', ''Magnifying Glass'', ''Master Sprinkler'', ''Cleaning Spray'',
      ''Favorite Tool'', ''Harvest Tool'', ''Friendship Pot'', ''Honey Sprinkler'', ''Lightning Rod'',
      ''Recall Wrench'']"

definition NOTABLE_EGGS :: "string list" where
  "NOTABLE_EGGS = [''Legendary Egg'', ''Mythical Egg'', ''Paradise Egg'', ''Bee Egg'', ''Bug Egg'', ''Night Egg'']"

text \<open>The keys of \<open>CATEGORY_MAPPING\<close>, and \<open>NOTABLE_MAP\<close> (key, allow-list, title), in source order.\<close>

definition CATEGORY_MAPPING :: "string list" where
  "CATEGORY_MAPPING = [''gear'', ''seeds'', ''eggs'']"

definition NOTABLE_MAP :: "(string \<times> string list \<times> string) list" where
  "NOTABLE_MAP =
     [(''seeds'', NOTABLE_SEEDS, ''Seeds''), (''gear'', NOTABLE_GEAR, ''Gear''), (''eggs'', NOTABLE_EGGS, ''Eggs'')]"

text \<open>The default weather label, the UTF-8 bytes of the source's literal.\<close>

definition default_weather :: string where
  "default_weather =
     [CHR ''B'', CHR 0xC3, CHR 0xAC, CHR ''n'', CHR ''h'', CHR '' '', CHR ''t'', CHR ''h'',
      CHR 0xC6, CHR 0xB0, CHR 0xE1, CHR 0xBB, CHR 0x9D, CHR ''n'', CHR ''g'']"

definition get_weather_type :: "stock_data \<Rightarrow> string" where
  "get_weather_type data =
     (if data_empty data then default_weather
      else (case weather data of
              WeatherDict (Some ty) \<Rightarrow> ty
            | WeatherDict None \<Rightarrow> default_weather
            | _ \<Rightarrow> default_weather))"

text \<open>
  The dict \<open>relevant_data\<close> that \<open>_calculate_data_hash\<close> builds: the weather label and,
  for each category of \<open>sorted(CATEGORY_MAPPING)\<close> whose array is not empty, the sorted
  list of the lower-cased non-empty names.
\<close>

record relevant =
  weather_label :: string
  items :: "(string \<times> string list) list"

definition relevant_names :: "item list \<Rightarrow> string list" where
  "relevant_names its = sort (map (\<lambda>it. lower (get_name it)) (filter has_name its))"

definition relevant_data :: "stock_data \<Rightarrow> relevant" where
  "relevant_data data =
     \<lparr>weather_label = get_weather_type data,
      items = map (\<lambda>category. (category, relevant_names (get_items data category)))
                (filter (\<lambda>category. get_items data category \<noteq> []) (sort CATEGORY_MAPPING))\<rparr>"

text \<open>
  \<open>_calculate_data_hash\<close>. The argument \<open>md5_json\<close> stands for the two library calls
  that end the function: \<open>json.dumps(relevant_data, sort_keys=True, separators=(',', ':'))\<close>
  and the MD5 hex digest of its UTF-8 encoding.
\<close>

definition calculate_data_hash :: "(relevant \<Rightarrow> string) \<Rightarrow> stock_data \<Rightarrow> string" where
  "calculate_data_hash md5_json data = (if data_empty data then [] else md5_json (relevant_data data))"

datatype py_error = KeyError

text \<open>
  One round of the loop of \<open>_get_notable_items\<close>. The Python sets are lists without
  duplicates; the result is sorted, so their order of iteration does not show.
  \<open>item['name']\<close> raises \<open>KeyError\<close> on an item without the key.
\<close>

definition notable_in_category :: "string list \<Rightarrow> item list \<Rightarrow> py_error + string list option" where
  "notable_in_category notable_list its =
     (let new_set = remdups (map (\<lambda>it. lower (get_name it)) (filter has_name its));
          notable_list_lower = set (map lower notable_list);
          current_notables = filter (\<lambda>n. n \<in> notable_list_lower) new_set
      in if current_notables = [] then Inr None
         else if \<exists>it \<in> set its. name it = None then Inl KeyError
         else
           (let original_casing_map = map_of (rev (map (\<lambda>it. (lower (get_name it), get_name it)) its));
                original_names =
                  sort (map (\<lambda>n. case original_casing_map n of None \<Rightarrow> title n | Some orig \<Rightarrow> orig)
                          current_notables)
            in if original_names = [] then Inr None else Inr (Some original_names)))"

fun notable_loop :: "(string \<times> string list \<times> string) list \<Rightarrow> stock_data \<Rightarrow> py_error + (string \<times> string list) list" where
  "notable_loop [] new_data = Inr []"
| "notable_loop ((category_key, notable_list, _) # rest) new_data =
     (case notable_in_category notable_list (get_items new_data category_key) of
        Inl e \<Rightarrow> Inl e
      | Inr found \<Rightarrow>
          (case notable_loop rest new_data of
             Inl e \<Rightarrow> Inl e
           | Inr later \<Rightarrow>
               Inr (case found of None \<Rightarrow> later | Some names \<Rightarrow> (category_key, names) # later)))"

definition get_notable_items :: "stock_data \<Rightarrow> py_error + (string \<times> string list) list" where
  "get_notable_items new_data = notable_loop NOTABLE_MAP new_data"

text \<open>
  \<open>_generate_change_summary\<close>: the text lists, per category in sorted key order, the
  category title and one bullet per item; the model keeps the categories and their items
  (the empty list is the empty string).
\<close>

definition generate_change_summary :: "stock_data \<Rightarrow> py_error + (string \<times> string list) list" where
  "generate_change_summary new_data =
     (case get_notable_items new_data of
        Inl e \<Rightarrow> Inl e
      | Inr notable_items_by_cat \<Rightarrow> Inr (sort_key fst notable_items_by_cat))"

section \<open>Delivering an update to the channels (cogs/roblox\_tracker.py)\<close>

text \<open>
  What Discord answers, for one channel during one update, to each call the delivery can
  make: \<open>None\<close> or \<open>Inr\<close> when the call returns, an exception otherwise.
  \<open>discord.NotFound\<close> and \<open>discord.Forbidden\<close> are subclasses of
  \<open>discord.HTTPException\<close>; \<open>OtherException\<close> is any exception that is not.
\<close>

type_synonym channel_id = int
type_synonym message_id = int

datatype exn =
    NotFound
  | Forbidden
  | HTTPException
  | OtherException

definition is_http_exception :: "exn \<Rightarrow> bool" where
  "is_http_exception e = (e \<noteq> OtherException)"

record channel_env =
  on_fetch_notification :: "exn option"
  on_delete_notification :: "exn option"
  on_send_notification :: "exn + message_id"
  on_fetch_status :: "exn option"
  on_edit_status :: "exn option"
  on_send_status :: "exn + message_id"

text \<open>
  The two tables the delivery reads and writes: \<open>stock_status_messages\<close> (one row per
  channel) and the rows of \<open>bot_config\<close> with the key
  \<open>last_notification_channel_<channel id>\<close>.
\<close>

record tracker_db =
  stock_status_messages :: "channel_id \<rightharpoonup> message_id"
  bot_config :: "channel_id \<rightharpoonup> message_id"

datatype action =
    DeletedNotification channel_id message_id
  | SentNotification channel_id message_id
  | EditedStatus channel_id message_id
  | SentStatus channel_id message_id
  | LoggedError channel_id exn
  | ChannelNotFound channel_id
  | LoggedFailure channel_id exn

fun channel_of :: "action \<Rightarrow> channel_id" where
  "channel_of (DeletedNotification ch _) = ch"
| "channel_of (SentNotification ch _) = ch"
| "channel_of (EditedStatus ch _) = ch"
| "channel_of (SentStatus ch _) = ch"
| "channel_of (LoggedError ch _) = ch"
| "channel_of (ChannelNotFound ch) = ch"
| "channel_of (LoggedFailure ch _) = ch"

text \<open>
  \<open>_send_notification\<close>. A stored id counts when it is not 0. The first \<open>try\<close>
  lets every exception but \<open>NotFound\<close> and \<open>Forbidden\<close> escape; the second catches
  \<open>HTTPException\<close>. The result is the escaping exception if any, the database and
  what was done.
\<close>

definition delete_previous :: "channel_env \<Rightarrow> channel_id \<Rightarrow> tracker_db \<Rightarrow> exn + action list" where
  "delete_previous env ch db =
     (case bot_config db ch of
        None \<Rightarrow> Inr []
      | Some last_noti_id \<Rightarrow>
          if last_noti_id = 0 then Inr []
          else (case on_fetch_notification env of
                  Some e \<Rightarrow> if e = NotFound \<or> e = Forbidden then Inr [] else Inl e
                | None \<Rightarrow>
                    (case on_delete_notification env of
                       Some e \<Rightarrow> if e = NotFound \<or> e = Forbidden then Inr [] else Inl e
                     | None \<Rightarrow> Inr [DeletedNotification ch last_noti_id])))"

definition send_notification ::
  "channel_env \<Rightarrow> channel_id \<Rightarrow> tracker_db \<Rightarrow> exn option \<times> tracker_db \<times> action list"
where
  "send_notification env ch db =
     (case delete_previous env ch db of
        Inl e \<Rightarrow> (Some e, db, [])
      | Inr acts \<Rightarrow>
          (case on_send_notification env of
             Inr new_msg \<Rightarrow>
               (None, db\<lparr>bot_config := (bot_config db)(ch \<mapsto> new_msg)\<rparr>, acts @ [SentNotification ch new_msg])
           | Inl e \<Rightarrow>
               if is_http_exception e then (None, db, acts @ [LoggedError ch e])
               else (Some e, db, acts)))"

text \<open>
  The body of the \<open>try\<close> of \<open>_update_channel\<close>: look the tracked status message up,
  fetch it (forgetting it when it is gone), then edit it or send a new one and track that.
\<close>

definition update_status ::
  "channel_env \<Rightarrow> channel_id \<Rightarrow> tracker_db \<Rightarrow> exn option \<times> tracker_db \<times> action list"
where
  "update_status env ch db =
     (let tracked = (case stock_status_messages db ch of
                       None \<Rightarrow> None
                     | Some message_id \<Rightarrow> if message_id = 0 then None else Some message_id);
          forgotten = db\<lparr>stock_status_messages := (stock_status_messages db)(ch := None)\<rparr>;
          send_new = (\<lambda>db'. case on_send_status env of
                               Inl e \<Rightarrow> (Some e, db', [])
                             | Inr new_message \<Rightarrow>
                                 (None,
                                  db'\<lparr>stock_status_messages := (stock_status_messages db')(ch \<mapsto> new_message)\<rparr>,
                                  [SentStatus ch new_message]))
      in case tracked of
           None \<Rightarrow> send_new db
         | Some message_id \<Rightarrow>
             (case on_fetch_status env of
                Some e \<Rightarrow> if e = NotFound \<or> e = Forbidden then send_new forgotten else (Some e, db, [])
              | None \<Rightarrow>
                  (case on_edit_status env of
                     Some e \<Rightarrow> (Some e, db, [])
                   | None \<Rightarrow> (None, db, [EditedStatus ch message_id]))))"

text \<open>
  \<open>_update_channel\<close>: the notification when there is a summary (its exceptions escape),
  then the status message, whose \<open>HTTPException\<close>s are logged and swallowed.
\<close>

definition update_channel ::
  "channel_env \<Rightarrow> channel_id \<Rightarrow> bool \<Rightarrow> tracker_db \<Rightarrow> exn option \<times> tracker_db \<times> action list"
where
  "update_channel env ch has_summary db =
     (case (if has_summary then send_notification env ch db else (None, db, [])) of
        (Some e, db1, acts1) \<Rightarrow> (Some e, db1, acts1)
      | (None, db1, acts1) \<Rightarrow>
          (case update_status env ch db1 of
             (None, db2, acts2) \<Rightarrow> (None, db2, acts1 @ acts2)
           | (Some e, db2, acts2) \<Rightarrow>
               if is_http_exception e then (None, db2, acts1 @ acts2 @ [LoggedError ch e])
               else (Some e, db2, acts1 @ acts2)))"

text \<open>
  \<open>asyncio.gather(*update_tasks, return_exceptions=True)\<close>: every task is run and its
  result or its exception is put at its place in the list of results. The tasks are run
  here one after the other in the order of the list; each reads and writes the rows of its
  own channel only.
\<close>

fun gather ::
  "(channel_id \<Rightarrow> channel_env) \<Rightarrow> bool \<Rightarrow> channel_id list \<Rightarrow> tracker_db
     \<Rightarrow> (channel_id \<times> exn option) list \<times> tracker_db \<times> action list"
where
  "gather env has_summary [] db = ([], db, [])"
| "gather env has_summary (ch # chs) db =
     (case update_channel (env ch) ch has_summary db of
        (result, db1, acts1) \<Rightarrow>
          (case gather env has_summary chs db1 of
             (results, db2, acts2) \<Rightarrow> ((ch, result) # results, db2, acts1 @ acts2)))"

text \<open>
  \<open>_handle_update\<close>. \<open>all_channel_ids\<close> is what \<open>get_all_stock_channels\<close> returns
  (\<open>SELECT DISTINCT channel_id\<close>), \<open>get_channel\<close> says which of them the bot finds.
  The embed of \<open>_build_stock_embed\<close> always has a title and is never falsy. An exception
  of \<open>_generate_change_summary\<close> escapes before anything is delivered.
\<close>

definition handle_update ::
  "(channel_id \<Rightarrow> bool) \<Rightarrow> (channel_id \<Rightarrow> channel_env) \<Rightarrow> channel_id list \<Rightarrow> stock_data \<Rightarrow> tracker_db
     \<Rightarrow> py_error + (channel_id \<times> exn option) list \<times> tracker_db \<times> action list"
where
  "handle_update get_channel env all_channel_ids new_data db =
     (if all_channel_ids = [] then Inr ([], db, [])
      else (case generate_change_summary new_data of
              Inl e \<Rightarrow> Inl e
            | Inr change_summary \<Rightarrow>
                (let channels_to_update = filter get_channel all_channel_ids;
                     warnings = map ChannelNotFound (filter (\<lambda>ch. \<not> get_channel ch) all_channel_ids)
                 in case gather env (change_summary \<noteq> []) channels_to_update db of
                      (results, db', acts) \<Rightarrow>
                        Inr (results, db',
                             warnings @ acts @
                             concat (map (\<lambda>(ch, result). case result of
                                                             None \<Rightarrow> []
                                                           | Some e \<Rightarrow> [LoggedFailure ch e]) results)))))"

section \<open>The crash point\<close>

lemma scale_cancel:
  fixes K a p :: real
  assumes "K \<noteq> 0"
  shows "(K * a - p * K) / (K - p * K) = (a - p) / (1 - p)"
proof -
  have n: "K * a - p * K = K * (a - p)"
    by (simp add: algebra_simps)
  have d: "K - p * K = K * (1 - p)"
    by (simp add: algebra_simps)
  show ?thesis
    unfolding n d using assms by (rule mult_divide_mult_cancel_left)
qed

lemma get_crash_point_formula:
  "\<not> r < 0.01 \<Longrightarrow> get_crash_point r p = (0.99 - p) / (1 - p)"
  unfolding get_crash_point_def Let_def
  using scale_cancel [of "2 ^ 32" "0.99" p] by simp

lemma get_crash_point_below_one:
  assumes "\<not> r < 0.01" and "p < 1"
  shows "get_crash_point r p < 1"
proof -
  have "(0.99 - p) / (1 - p) < 1"
    using assms(2) by (simp add: field_simps)
  then show ?thesis
    using assms(1) by (simp add: get_crash_point_formula)
qed

text \<open>
  C1. The claim: the generator returns exactly 1.00 when the first draw is below 0.01
  and otherwise the transform \<open>(K e_h - u K) / (K - u K)\<close>, clamped to at least 1.00, so
  that every returned crash point is at least 1.00. The source applies no clamp: at the
  draws \<open>r = 1/2\<close>, \<open>u = 0\<close> it returns \<open>0.99\<close>, which is below 1.00 (and below
  \<open>MIN_MULTIPLIER\<close>).
\<close>

theorem get_crash_point_unclamped:
  "get_crash_point (1/2) 0 = 99/100 \<and> get_crash_point (1/2) 0 < MIN_MULTIPLIER"
  by (simp add: get_crash_point_def MIN_MULTIPLIER_def)

section \<open>The ledger and joining a round\<close>

text \<open>
  C2. The claim: a debit larger than the player's balance makes \<open>update_balance\<close>
  return failure and leave the balance unchanged, so that a join with insufficient funds
  is declined without any change. The source's \<open>update_balance\<close> never compares the
  amount with the balance: for a player with balance 50 a debit of 100 returns \<open>True\<close>
  and leaves the balance at -50, and \<open>add_player\<close> admits the player with a bet of 100.
\<close>

theorem join_overdraft_accepted:
  "update_balance \<lparr>users = {7}, economy = [7 \<mapsto> \<lparr>balance = 50, total_earned = 0, total_spent = 0\<rparr>]\<rparr> 7 (- 100)
     = (True, \<lparr>users = {7}, economy = [7 \<mapsto> \<lparr>balance = - 50, total_earned = 0, total_spent = 100\<rparr>]\<rparr>)
   \<and> add_player (init_game 0 0)
         \<lparr>users = {7}, economy = [7 \<mapsto> \<lparr>balance = 50, total_earned = 0, total_spent = 0\<rparr>]\<rparr> 7 100
     = (JoinedWithBet 100,
        \<lparr>players = [(7, \<lparr>bet = 100, cashout_at = None\<rparr>)], crashed_at = 1, current_multiplier = 1,
         is_betting_open = True, is_running = False\<rparr>,
        \<lparr>users = {7}, economy = [7 \<mapsto> \<lparr>balance = - 50, total_earned = 0, total_spent = 100\<rparr>]\<rparr>)"
  by (simp add: add_player_def add_player_guards_def add_player_resume_def init_game_def
      get_crash_point_def MAX_PLAYERS_def update_balance_def get_user_profile_def sql_update_def Let_def)

text \<open>
  A join that starts once betting is closed (\<open>is_betting_open\<close> is false, which is the
  first thing \<open>lock_bets\<close> does) is turned down by the first guard, before the await:
  the players and the ledger are returned unchanged.
\<close>

lemma add_player_after_lock:
  assumes "\<not> is_betting_open g"
  shows "add_player_guards g uid = Some BettingPhaseOver
       \<and> add_player g db uid b = (BettingPhaseOver, g, db)"
  using assms by (simp add: add_player_def add_player_guards_def)

text \<open>
  C4. The claim: on a round that is no longer in its betting phase every join is
  rejected, with no entry added and no debit, whatever its timing against the lock. The
  source tests \<open>is_betting_open\<close> before the await of the debit and not after it. On a
  fresh round, player 7 (balance 500) submits a bet of 100 and passes the guards; while
  the debit is awaited the betting timer runs \<open>lock_bets\<close>, which finds no players and
  cancels the round; the join then resumes on the locked round, debits the player to 400
  and adds them to its players.
\<close>

theorem join_in_flight_admitted_after_lock:
  "add_player_guards (init_game 0 0) 7 = None
   \<and> lock_bets [] (init_game 0 0)
         \<lparr>users = {7}, economy = [7 \<mapsto> \<lparr>balance = 500, total_earned = 0, total_spent = 0\<rparr>]\<rparr>
     = Some (\<lparr>players = [], crashed_at = 1, current_multiplier = 1,
              is_betting_open = False, is_running = False\<rparr>,
             \<lparr>users = {7}, economy = [7 \<mapsto> \<lparr>balance = 500, total_earned = 0, total_spent = 0\<rparr>]\<rparr>,
             [GameCancelled])
   \<and> add_player_resume
         \<lparr>players = [], crashed_at = 1, current_multiplier = 1,
          is_betting_open = False, is_running = False\<rparr>
         \<lparr>users = {7}, economy = [7 \<mapsto> \<lparr>balance = 500, total_earned = 0, total_spent = 0\<rparr>]\<rparr> 7 100
     = (JoinedWithBet 100,
        \<lparr>players = [(7, \<lparr>bet = 100, cashout_at = None\<rparr>)], crashed_at = 1, current_multiplier = 1,
         is_betting_open = False, is_running = False\<rparr>,
        \<lparr>users = {7}, economy = [7 \<mapsto> \<lparr>balance = 400, total_earned = 0, total_spent = 100\<rparr>]\<rparr>)"
  by (simp add: add_player_guards_def add_player_resume_def lock_bets_def init_game_def
      get_crash_point_def MAX_PLAYERS_def update_balance_def get_user_profile_def sql_update_def Let_def)

section \<open>Cashing out\<close>

lemma update_balance_credit:
  assumes "uid \<in> users db" and "economy db uid \<noteq> None"
  shows "get_user_balance (snd (update_balance db uid w)) uid = get_user_balance db uid + w"
  using assms
  by (auto simp: update_balance_def get_user_profile_def get_user_balance_def sql_update_def Let_def)

text \<open>
  C5. \<open>cashout_player\<close> succeeds exactly when the round is running and the caller is
  a player with no recorded cashout. On success the recorded cashout and the reply carry
  the current multiplier, the ledger is credited through \<open>update_balance\<close> with
  \<open>bet * current_multiplier\<close> (for a player with a profile and an economy row the
  balance grows by exactly that), and the next attempt of the same player is answered
  "already cashed out" with no change of round or ledger. An attempt that does not
  succeed changes nothing.
\<close>

theorem cashout_player_at_most_once:
  assumes "cashout_player g db uid = (reply, g', db')"
  shows "((\<exists>m w. reply = CashedOut m w) \<longleftrightarrow>
            (is_running g \<and> (\<exists>pl. map_of (players g) uid = Some pl \<and> cashout_at pl = None)))
       \<and> (\<forall>m w. reply = CashedOut m w \<longrightarrow>
            (\<exists>pl. map_of (players g) uid = Some pl
                  \<and> m = current_multiplier g
                  \<and> w = real_of_int (bet pl) * current_multiplier g
                  \<and> map_of (players g') uid = Some (pl\<lparr>cashout_at := Some m\<rparr>))
            \<and> db' = snd (update_balance db uid w)
            \<and> (uid \<in> users db \<and> economy db uid \<noteq> None \<longrightarrow>
                   get_user_balance db' uid = get_user_balance db uid + w)
            \<and> cashout_player g' db' uid = (AlreadyCashedOut, g', db'))
       \<and> ((\<forall>m w. reply \<noteq> CashedOut m w) \<longrightarrow> g' = g \<and> db' = db)"
proof (cases "is_running g")
  case False
  with assms show ?thesis
    by (auto simp: cashout_player_def)
next
  case run: True
  show ?thesis
  proof (cases "map_of (players g) uid")
    case None
    with assms run show ?thesis
      by (auto simp: cashout_player_def)
  next
    case (Some pl)
    show ?thesis
    proof (cases "cashout_at pl")
      case (Some m0)
      with assms run \<open>map_of (players g) uid = Some pl\<close> show ?thesis
        by (auto simp: cashout_player_def)
    next
      case None
      define m where "m = current_multiplier g"
      define w where "w = real_of_int (bet pl) * m"
      from assms run \<open>map_of (players g) uid = Some pl\<close> None
      have reply: "reply = CashedOut m w"
        and g': "g' = g\<lparr>players := AList.update uid (pl\<lparr>cashout_at := Some m\<rparr>) (players g)\<rparr>"
        and db': "db' = snd (update_balance db uid w)"
        by (simp_all add: cashout_player_def Let_def m_def w_def)
      have look: "map_of (players g') uid = Some (pl\<lparr>cashout_at := Some m\<rparr>)"
        by (simp add: g' update_conv')
      have again: "cashout_player g' db' uid = (AlreadyCashedOut, g', db')"
        using run look by (simp add: cashout_player_def g')
      show ?thesis
        using run \<open>map_of (players g) uid = Some pl\<close> None reply look again db'
          update_balance_credit [of uid db w]
        by (simp add: m_def w_def)
    qed
  qed
qed

theorem cashout_player_at_most_once_witness:
  "cashout_player
      \<lparr>players = [(7, \<lparr>bet = 100, cashout_at = None\<rparr>), (8, \<lparr>bet = 50, cashout_at = None\<rparr>)],
       crashed_at = 7/2, current_multiplier = 2, is_betting_open = False, is_running = True\<rparr>
      \<lparr>users = {7, 8}, economy = [7 \<mapsto> \<lparr>balance = 0, total_earned = 0, total_spent = 100\<rparr>]\<rparr> 7
     = (CashedOut 2 200,
        \<lparr>players = [(7, \<lparr>bet = 100, cashout_at = Some 2\<rparr>), (8, \<lparr>bet = 50, cashout_at = None\<rparr>)],
         crashed_at = 7/2, current_multiplier = 2, is_betting_open = False, is_running = True\<rparr>,
        \<lparr>users = {7, 8}, economy = [7 \<mapsto> \<lparr>balance = 200, total_earned = 200, total_spent = 100\<rparr>]\<rparr>)
   \<and> cashout_player
        \<lparr>players = [(7, \<lparr>bet = 100, cashout_at = Some 2\<rparr>), (8, \<lparr>bet = 50, cashout_at = None\<rparr>)],
         crashed_at = 7/2, current_multiplier = 2, is_betting_open = False, is_running = True\<rparr>
        \<lparr>users = {7, 8}, economy = [7 \<mapsto> \<lparr>balance = 200, total_earned = 200, total_spent = 100\<rparr>]\<rparr> 7
     = (AlreadyCashedOut,
        \<lparr>players = [(7, \<lparr>bet = 100, cashout_at = Some 2\<rparr>), (8, \<lparr>bet = 50, cashout_at = None\<rparr>)],
         crashed_at = 7/2, current_multiplier = 2, is_betting_open = False, is_running = True\<rparr>,
        \<lparr>users = {7, 8}, economy = [7 \<mapsto> \<lparr>balance = 200, total_earned = 200, total_spent = 100\<rparr>]\<rparr>)"
proof -
  have first: "cashout_player
      \<lparr>players = [(7, \<lparr>bet = 100, cashout_at = None\<rparr>), (8, \<lparr>bet = 50, cashout_at = None\<rparr>)],
       crashed_at = 7/2, current_multiplier = 2, is_betting_open = False, is_running = True\<rparr>
      \<lparr>users = {7, 8}, economy = [7 \<mapsto> \<lparr>balance = 0, total_earned = 0, total_spent = 100\<rparr>]\<rparr> 7
     = (CashedOut 2 200,
        \<lparr>players = [(7, \<lparr>bet = 100, cashout_at = Some 2\<rparr>), (8, \<lparr>bet = 50, cashout_at = None\<rparr>)],
         crashed_at = 7/2, current_multiplier = 2, is_betting_open = False, is_running = True\<rparr>,
        \<lparr>users = {7, 8}, economy = [7 \<mapsto> \<lparr>balance = 200, total_earned = 200, total_spent = 100\<rparr>]\<rparr>)"
    by (simp add: cashout_player_def update_balance_def get_user_profile_def sql_update_def Let_def)
  from cashout_player_at_most_once [OF first] have second: "cashout_player
        \<lparr>players = [(7, \<lparr>bet = 100, cashout_at = Some 2\<rparr>), (8, \<lparr>bet = 50, cashout_at = None\<rparr>)],
         crashed_at = 7/2, current_multiplier = 2, is_betting_open = False, is_running = True\<rparr>
        \<lparr>users = {7, 8}, economy = [7 \<mapsto> \<lparr>balance = 200, total_earned = 200, total_spent = 100\<rparr>]\<rparr> 7
     = (AlreadyCashedOut,
        \<lparr>players = [(7, \<lparr>bet = 100, cashout_at = Some 2\<rparr>), (8, \<lparr>bet = 50, cashout_at = None\<rparr>)],
         crashed_at = 7/2, current_multiplier = 2, is_betting_open = False, is_running = True\<rparr>,
        \<lparr>users = {7, 8}, economy = [7 \<mapsto> \<lparr>balance = 200, total_earned = 200, total_spent = 100\<rparr>]\<rparr>)"
    by blast
  show ?thesis
    by (rule conjI [OF first second])
qed

text \<open>
  A recorded cashout stays: cashouts of any player, and joins that run without another
  handler in their await, leave the record of a player who has cashed out as it is (the
  animation loop does not touch the players at all), and while it is there every cashout
  attempt of that player is turned down without effect. A join of the same player that
  resumes later assigns the entry anew (\<open>add_player_resume\<close> tests nothing).
\<close>

lemma cashout_recorded_rejected:
  assumes "map_of (players g) uid = Some pl" and "cashout_at pl \<noteq> None"
  shows "cashout_player g db uid = (if is_running g then AlreadyCashedOut else NotInActiveGame, g, db)"
  using assms by (simp add: cashout_player_def)

lemma add_player_keeps_entries:
  assumes "map_of (players g) uid = Some pl" and "add_player g db u b = (r, g', db')"
  shows "map_of (players g') uid = Some pl \<and> is_betting_open g' = is_betting_open g"
proof (cases "r = JoinedWithBet b")
  case True
  with assms(2) have "map_of (players g) u = None"
    and "g' = g\<lparr>players := AList.update u \<lparr>bet = b, cashout_at = None\<rparr> (players g)\<rparr>"
    by (auto simp: add_player_def add_player_guards_def add_player_resume_def
        split: if_splits prod.splits bool.splits option.splits)
  with assms(1) show ?thesis
    by (auto simp: update_conv')
next
  case False
  with assms(2) have "g' = g"
    by (auto simp: add_player_def add_player_guards_def add_player_resume_def
        split: if_splits prod.splits bool.splits option.splits)
  with assms(1) show ?thesis
    by simp
qed

lemma cashout_player_keeps_record:
  assumes "map_of (players g) uid = Some pl" and "cashout_at pl \<noteq> None"
    and "cashout_player g db u = (r, g', db')"
  shows "map_of (players g') uid = Some pl \<and> is_betting_open g' = is_betting_open g"
proof (cases "u = uid")
  case True
  with assms cashout_recorded_rejected [OF assms(1,2), of db] show ?thesis
    by simp
next
  case False
  with assms(1,3) show ?thesis
    by (auto simp: cashout_player_def Let_def update_conv' split: if_splits option.splits)
qed

section \<open>The animation loop and locking the bets\<close>

lemma run_loop_result:
  "run_loop ts g gd = Some (g', gd', es) \<Longrightarrow>
     \<not> current_multiplier g' < crashed_at g' \<and> players g' = players g \<and> crashed_at g' = crashed_at g
     \<and> is_betting_open g' = is_betting_open g \<and> is_running g' = is_running g"
proof (induction ts arbitrary: g gd g' gd' es)
  case Nil
  then show ?case by (simp split: if_splits)
next
  case (Cons elapsed ts)
  show ?case
  proof (cases "current_multiplier g < crashed_at g")
    case False
    with Cons.prems show ?thesis by simp
  next
    case True
    define m where "m = min (1 + (crashed_at g - 1) * ease_in_cubic (min (elapsed / duration) 1.0)) (crashed_at g)"
    define g1 where "g1 = g\<lparr>current_multiplier := m\<rparr>"
    from Cons.prems True obtain gd1 es1 where "run_loop ts g1 gd1 = Some (g', gd', es1)"
      by (auto simp: Let_def m_def g1_def split: if_splits option.splits)
    from Cons.IH [OF this] show ?thesis by (simp add: g1_def)
  qed
qed

lemma run_loop_done:
  "\<not> current_multiplier g < crashed_at g \<Longrightarrow> run_loop ts g gd = Some (g, gd, [])"
  by (cases ts) auto

lemma lock_bets_result:
  assumes "lock_bets ts g db = Some (g1, db1, effs1)"
  shows "\<not> is_betting_open g1 \<and> players g1 = players g \<and> crashed_at g1 = crashed_at g \<and> db1 = db
         \<and> (players g \<noteq> [] \<longrightarrow> \<not> is_running g1 \<and> \<not> current_multiplier g1 < crashed_at g1)"
proof (cases "players g = []")
  case True
  with assms have "g1 = g\<lparr>is_betting_open := False\<rparr>" and "db1 = db"
    by (simp_all add: lock_bets_def Let_def)
  then show ?thesis
    using True by simp
next
  case False
  with assms obtain g2 gd es where
    r: "run_loop ts (g\<lparr>is_betting_open := False, is_running := True\<rparr>) [1.0] = Some (g2, gd, es)"
    and g1: "g1 = g2\<lparr>is_running := False\<rparr>" and db1: "db1 = db"
    by (auto simp: lock_bets_def run_game_def payout_losers_def Let_def split: option.splits)
  from run_loop_result [OF r] show ?thesis
    using False by (simp add: g1 db1)
qed

lemma lock_bets_again:
  assumes "lock_bets ts g db = Some (g1, db1, effs1)"
  shows "lock_bets ts' g1 db1 =
           Some (g1, db1, [if players g1 = [] then GameCancelled else FinalFrame [1] (crashed_at g1)])"
proof -
  note r = lock_bets_result [OF assms]
  have closed: "g1\<lparr>is_betting_open := False\<rparr> = g1"
    using r by (cases g1) simp
  show ?thesis
  proof (cases "players g1 = []")
    case True
    then show ?thesis
      by (simp add: lock_bets_def Let_def closed)
  next
    case False
    with r have nr: "\<not> is_running g1" and fin: "\<not> current_multiplier g1 < crashed_at g1"
      by simp_all
    have stopped: "g1\<lparr>is_running := True, is_running := False\<rparr> = g1"
      using nr by (cases g1) simp
    have "run_loop ts' (g1\<lparr>is_running := True\<rparr>) [1.0] = Some (g1\<lparr>is_running := True\<rparr>, [1.0], [])"
      using fin by (intro run_loop_done) simp
    then show ?thesis
      using False stopped by (simp add: lock_bets_def run_game_def payout_losers_def Let_def closed)
  qed
qed

text \<open>
  With a crash point of at least 1, clock readings that are not negative and do not go
  back, and a reading of at least \<open>duration\<close> among them, the loop returns, the
  multipliers it records never decrease nor exceed the crash point, and the round ends
  with the multiplier at the crash point.
\<close>

lemma ease_in_cubic_mono:
  assumes "0 \<le> x" and "x \<le> y"
  shows "ease_in_cubic x \<le> ease_in_cubic y"
proof -
  from assms have "x * x \<le> y * y"
    by (intro mult_mono) simp_all
  with assms have "x * x * x \<le> y * y * y"
    by (intro mult_mono) simp_all
  then show ?thesis
    by (simp add: ease_in_cubic_def)
qed

lemma ease_in_cubic_nonneg: "0 \<le> x \<Longrightarrow> 0 \<le> ease_in_cubic x"
  by (simp add: ease_in_cubic_def)

lemma eased_mono:
  assumes "0 \<le> s" and "s \<le> t"
  shows "ease_in_cubic (min (s / duration) 1) \<le> ease_in_cubic (min (t / duration) 1)"
proof (rule ease_in_cubic_mono)
  show "0 \<le> min (s / duration) 1"
    using assms(1) by (simp add: duration_def)
  show "min (s / duration) 1 \<le> min (t / duration) 1"
    using assms(2) by (simp add: duration_def min_le_iff_disj)
qed

lemma run_loop_returns:
  assumes "\<exists>t \<in> set ts. duration \<le> t"
  shows "\<exists>res. run_loop ts g gd = Some res"
  using assms
proof (induction ts arbitrary: g gd)
  case Nil
  then show ?case by simp
next
  case (Cons elapsed ts)
  show ?case
  proof (cases "current_multiplier g < crashed_at g")
    case False
    then show ?thesis by simp
  next
    case True
    define m where "m = min (1 + (crashed_at g - 1) * ease_in_cubic (min (elapsed / duration) 1.0)) (crashed_at g)"
    define g1 where "g1 = g\<lparr>current_multiplier := m\<rparr>"
    have "\<exists>res. run_loop ts g1 (gd @ [m]) = Some res"
    proof (cases "duration \<le> elapsed")
      case True
      then have "min (elapsed / duration) 1.0 = 1"
        by (simp add: duration_def)
      then have "m = crashed_at g"
        by (simp add: m_def ease_in_cubic_def)
      then have "\<not> current_multiplier g1 < crashed_at g1"
        by (simp add: g1_def)
      from run_loop_done [OF this] show ?thesis
        by blast
    next
      case False
      with Cons.prems have "\<exists>t \<in> set ts. duration \<le> t"
        by auto
      from Cons.IH [OF this] show ?thesis .
    qed
    then obtain res where r: "run_loop ts g1 (gd @ [m]) = Some res"
      by blast
    obtain g2 gd2 es2 where "res = (g2, gd2, es2)"
      by (cases res)
    with r True show ?thesis
      by (auto simp: Let_def m_def g1_def)
  qed
qed

lemma run_loop_trace:
  assumes "1 \<le> crashed_at g"
    and "sorted ts" and "\<forall>t \<in> set ts. 0 \<le> t"
    and "current_multiplier g \<le> crashed_at g"
    and "\<forall>t \<in> set ts. current_multiplier g \<le> 1 + (crashed_at g - 1) * ease_in_cubic (min (t / duration) 1)"
    and "sorted gd" and "\<forall>x \<in> set gd. x \<le> current_multiplier g"
    and "run_loop ts g gd = Some (g', gd', es)"
  shows "sorted gd' \<and> (\<forall>x \<in> set gd'. x \<le> crashed_at g) \<and> current_multiplier g' = crashed_at g
         \<and> (\<exists>later. gd' = gd @ later)"
  using assms
proof (induction ts arbitrary: g gd g' gd' es)
  case Nil
  then show ?case
    by (auto split: if_splits)
next
  case (Cons elapsed ts)
  show ?case
  proof (cases "current_multiplier g < crashed_at g")
    case False
    with Cons.prems show ?thesis
      by auto
  next
    case True
    define c where "c = crashed_at g"
    define m where "m = min (1 + (c - 1) * ease_in_cubic (min (elapsed / duration) 1)) c"
    define g1 where "g1 = g\<lparr>current_multiplier := m\<rparr>"
    from Cons.prems(8) True obtain es1 where r: "run_loop ts g1 (gd @ [m]) = Some (g', gd', es1)"
      by (auto simp: Let_def m_def g1_def c_def split: if_splits option.splits)
    from Cons.prems(5) have below: "current_multiplier g \<le> 1 + (c - 1) * ease_in_cubic (min (elapsed / duration) 1)"
      by (simp add: c_def)
    with Cons.prems(4) have up: "current_multiplier g \<le> m"
      by (simp add: m_def c_def)
    have mc: "m \<le> c"
      by (simp add: m_def)
    have a1: "1 \<le> crashed_at g1"
      using Cons.prems(1) by (simp add: g1_def)
    have a2: "sorted ts" and a3: "\<forall>t \<in> set ts. 0 \<le> t"
      using Cons.prems(2,3) by simp_all
    have a4: "current_multiplier g1 \<le> crashed_at g1"
      using mc by (simp add: g1_def c_def)
    have a5: "\<forall>t \<in> set ts. current_multiplier g1 \<le> 1 + (crashed_at g1 - 1) * ease_in_cubic (min (t / duration) 1)"
    proof
      fix t assume t: "t \<in> set ts"
      with Cons.prems(2,3) have "0 \<le> elapsed" and "elapsed \<le> t"
        by simp_all
      from eased_mono [OF this]
      have "(c - 1) * ease_in_cubic (min (elapsed / duration) 1) \<le> (c - 1) * ease_in_cubic (min (t / duration) 1)"
        using Cons.prems(1) by (intro mult_left_mono) (simp_all add: c_def)
      then have "m \<le> 1 + (c - 1) * ease_in_cubic (min (t / duration) 1)"
        by (simp add: m_def min_le_iff_disj)
      then show "current_multiplier g1 \<le> 1 + (crashed_at g1 - 1) * ease_in_cubic (min (t / duration) 1)"
        by (simp add: g1_def c_def)
    qed
    have a6: "sorted (gd @ [m])"
      using Cons.prems(6,7) up by (auto simp: sorted_append)
    have a7: "\<forall>x \<in> set (gd @ [m]). x \<le> current_multiplier g1"
      using Cons.prems(7) up by (auto simp: g1_def)
    from Cons.IH [OF a1 a2 a3 a4 a5 a6 a7 r] show ?thesis
      by (auto simp: g1_def)
  qed
qed

lemma run_game_multiplier:
  assumes "1 \<le> crashed_at g" and "current_multiplier g = 1"
    and "sorted ts" and "\<forall>t \<in> set ts. 0 \<le> t"
    and "run_game ts g db = Some (g', db', es)"
  shows "current_multiplier g' = crashed_at g
       \<and> (\<exists>effs gd. es = effs @ [FinalFrame gd (crashed_at g)]
             \<and> sorted gd \<and> hd gd = 1 \<and> (\<forall>x \<in> set gd. x \<le> crashed_at g))"
proof -
  let ?g = "g\<lparr>is_running := True\<rparr>"
  from assms(5) obtain g2 gd effs where
    r: "run_loop ts ?g [1] = Some (g2, gd, effs)"
    and g': "g' = g2\<lparr>is_running := False\<rparr>"
    and es: "es = effs @ [FinalFrame gd (crashed_at g2)]"
    by (auto simp: run_game_def Let_def split: option.splits)
  have b: "\<forall>t \<in> set ts. current_multiplier ?g \<le> 1 + (crashed_at ?g - 1) * ease_in_cubic (min (t / duration) 1)"
  proof
    fix t assume "t \<in> set ts"
    with assms(4) have "0 \<le> min (t / duration) 1"
      by (simp add: duration_def)
    from ease_in_cubic_nonneg [OF this] assms(1)
    have "0 \<le> (crashed_at g - 1) * ease_in_cubic (min (t / duration) 1)"
      by simp
    then show "current_multiplier ?g \<le> 1 + (crashed_at ?g - 1) * ease_in_cubic (min (t / duration) 1)"
      by (simp add: assms(2))
  qed
  have "sorted gd \<and> (\<forall>x \<in> set gd. x \<le> crashed_at ?g) \<and> current_multiplier g2 = crashed_at ?g
         \<and> (\<exists>later. gd = [1] @ later)"
    using assms(1,2,3,4) b by (intro run_loop_trace [OF _ _ _ _ _ _ _ r]) simp_all
  moreover from run_loop_result [OF r] have "crashed_at g2 = crashed_at g"
    by simp
  ultimately show ?thesis
    by (auto simp: g' es)
qed

text \<open>
  C3. The claim: the multiplier starts at 1.0, never decreases, never exceeds the crash
  point and equals it once the round has settled. A round is created with
  \<open>current_multiplier = 1.0\<close> and \<open>crashed_at = _get_crash_point()\<close>; at the draws
  \<open>r = 1/2\<close>, \<open>u = 0\<close> the crash point is 0.99, so the multiplier exceeds it from the
  start, the loop of \<open>run_game\<close> is never entered, and the settled round still shows 1.0
  against a crash point of 0.99.
\<close>

theorem multiplier_above_crash_point:
  "crashed_at (init_game (1/2) 0) < current_multiplier (init_game (1/2) 0)
   \<and> lock_bets [] ((init_game (1/2) 0)\<lparr>players := [(7, \<lparr>bet = 100, cashout_at = None\<rparr>)]\<rparr>)
         \<lparr>users = {}, economy = Map.empty\<rparr>
     = Some (\<lparr>players = [(7, \<lparr>bet = 100, cashout_at = None\<rparr>)], crashed_at = 99/100,
              current_multiplier = 1, is_betting_open = False, is_running = False\<rparr>,
             \<lparr>users = {}, economy = Map.empty\<rparr>,
             [FinalFrame [1] (99/100)])"
  by (simp add: init_game_def get_crash_point_def lock_bets_def run_game_def payout_losers_def Let_def)

text \<open>
  C6. The claim: calling \<open>lock_bets\<close> twice has the same phase, players, balances and
  outbound effects as calling it once. The effects differ: on a round without players the
  cancellation embed is sent twice.
\<close>

theorem lock_bets_twice_repeats_effect:
  "lock_bets_twice [] [] (init_game 0 0) \<lparr>users = {}, economy = Map.empty\<rparr>
     \<noteq> lock_bets [] (init_game 0 0) \<lparr>users = {}, economy = Map.empty\<rparr>"
  by (simp add: lock_bets_twice_def lock_bets_def init_game_def Let_def)

text \<open>
  C6, as the code has it: a second call leaves the round (flags, multiplier, players) and
  the ledger exactly as the first call left them, and sends one more message: the
  cancellation embed again when nobody joined, otherwise a further final frame of a game
  run whose loop body is not entered.
\<close>

theorem lock_bets_state_idempotent:
  assumes "lock_bets ts g db = Some (g1, db1, effs1)"
  shows "lock_bets_twice ts ts' g db =
           Some (g1, db1,
                 effs1 @ [if players g1 = [] then GameCancelled else FinalFrame [1] (crashed_at g1)])
         \<and> db1 = db"
  using assms lock_bets_again [OF assms, of ts'] lock_bets_result [OF assms]
  by (simp add: lock_bets_twice_def)

theorem lock_bets_state_idempotent_witness:
  "lock_bets [5]
      \<lparr>players = [(7, \<lparr>bet = 100, cashout_at = None\<rparr>)], crashed_at = 2, current_multiplier = 1,
       is_betting_open = True, is_running = False\<rparr>
      \<lparr>users = {7}, economy = Map.empty\<rparr>
     = Some (\<lparr>players = [(7, \<lparr>bet = 100, cashout_at = None\<rparr>)], crashed_at = 2, current_multiplier = 2,
              is_betting_open = False, is_running = False\<rparr>,
             \<lparr>users = {7}, economy = Map.empty\<rparr>,
             [ProgressFrame [1, 2] 2, FinalFrame [1, 2] 2])
   \<and> lock_bets_twice [5] []
      \<lparr>players = [(7, \<lparr>bet = 100, cashout_at = None\<rparr>)], crashed_at = 2, current_multiplier = 1,
       is_betting_open = True, is_running = False\<rparr>
      \<lparr>users = {7}, economy = Map.empty\<rparr>
     = Some (\<lparr>players = [(7, \<lparr>bet = 100, cashout_at = None\<rparr>)], crashed_at = 2, current_multiplier = 2,
              is_betting_open = False, is_running = False\<rparr>,
             \<lparr>users = {7}, economy = Map.empty\<rparr>,
             [ProgressFrame [1, 2] 2, FinalFrame [1, 2] 2, FinalFrame [1] 2])"
proof -
  have first: "lock_bets [5]
      \<lparr>players = [(7, \<lparr>bet = 100, cashout_at = None\<rparr>)], crashed_at = 2, current_multiplier = 1,
       is_betting_open = True, is_running = False\<rparr>
      \<lparr>users = {7}, economy = Map.empty\<rparr>
     = Some (\<lparr>players = [(7, \<lparr>bet = 100, cashout_at = None\<rparr>)], crashed_at = 2, current_multiplier = 2,
              is_betting_open = False, is_running = False\<rparr>,
             \<lparr>users = {7}, economy = Map.empty\<rparr>,
             [ProgressFrame [1, 2] 2, FinalFrame [1, 2] 2])"
    by (simp add: lock_bets_def run_game_def payout_losers_def duration_def ease_in_cubic_def Let_def)
  from lock_bets_state_idempotent [OF first, of "[]"] show ?thesis
    using first by simp
qed

section \<open>One round per guild\<close>

text \<open>
  C10. While the round registered for a guild has betting open or is running, \<open>/crash\<close>
  is answered "already in progress" and the registry is unchanged. A new round is
  registered only when no round is registered for the guild or the registered one has both
  flags down (it has settled or was cancelled); the rounds of other guilds are untouched.
\<close>

theorem crash_single_active_round:
  "(\<forall>g. active_games gid = Some g \<and> (is_betting_open g \<or> is_running g) \<longrightarrow>
        crash active_games gid r p = (AlreadyInProgress, active_games))
   \<and> (fst (crash active_games gid r p) = BettingStarted \<longrightarrow>
        (case active_games gid of None \<Rightarrow> True | Some g \<Rightarrow> \<not> is_betting_open g \<and> \<not> is_running g)
        \<and> snd (crash active_games gid r p) = active_games(gid \<mapsto> init_game r p))
   \<and> (\<forall>gid'. gid' \<noteq> gid \<longrightarrow> snd (crash active_games gid r p) gid' = active_games gid')"
  by (auto simp: crash_def split: option.splits)

theorem crash_single_active_round_witness:
  "crash [Some 1 \<mapsto> init_game 0 0] (Some 1) (1/2) 0 = (AlreadyInProgress, [Some 1 \<mapsto> init_game 0 0])
   \<and> crash Map.empty (Some 1) 0 0 = (BettingStarted, [Some 1 \<mapsto> init_game 0 0])
   \<and> snd (crash Map.empty (Some 1) 0 0) (Some 2) = None"
  using crash_single_active_round [of "[Some 1 \<mapsto> init_game 0 0]" "Some 1" "1/2" 0]
    crash_single_active_round [of Map.empty "Some 1" 0 0]
  by (simp add: init_game_def crash_def)

section \<open>The notable items of a snapshot\<close>

lemma casing_lookup:
  assumes "n \<in> (\<lambda>it. lower (get_name it)) ` set its"
  shows "\<exists>orig. map_of (rev (map (\<lambda>it. (lower (get_name it), get_name it)) its)) n = Some orig
           \<and> lower orig = n \<and> orig \<in> get_name ` set its"
proof -
  let ?l = "rev (map (\<lambda>it. (lower (get_name it), get_name it)) its)"
  from assms have "n \<in> fst ` set ?l"
    by (auto simp: image_iff)
  then have "map_of ?l n \<noteq> None"
    by (simp only: map_of_eq_None_iff not_not)
  then obtain orig where o: "map_of ?l n = Some orig"
    by blast
  from map_of_SomeD [OF o] have "lower orig = n \<and> orig \<in> get_name ` set its"
    by auto
  with o show ?thesis
    by blast
qed

lemma notable_in_category_names:
  assumes "notable_in_category nl its = Inr r"
  shows "lower ` set (case r of None \<Rightarrow> [] | Some ns \<Rightarrow> ns)
           = (\<lambda>it. lower (get_name it)) ` {it \<in> set its. has_name it} \<inter> lower ` set nl
         \<and> set (case r of None \<Rightarrow> [] | Some ns \<Rightarrow> ns) \<subseteq> get_name ` set its"
proof -
  define cn where
    "cn = filter (\<lambda>n. n \<in> set (map lower nl)) (remdups (map (\<lambda>it. lower (get_name it)) (filter has_name its)))"
  define casing where
    "casing = (\<lambda>n. case map_of (rev (map (\<lambda>it. (lower (get_name it), get_name it)) its)) n of
                       None \<Rightarrow> title n | Some orig \<Rightarrow> orig)"
  have cn_set: "set cn = (\<lambda>it. lower (get_name it)) ` {it \<in> set its. has_name it} \<inter> lower ` set nl"
    by (auto simp: cn_def)
  show ?thesis
  proof (cases "cn = []")
    case True
    with assms have "r = None"
      by (simp add: notable_in_category_def Let_def cn_def)
    with True cn_set show ?thesis
      by auto
  next
    case False
    then have ne: "sort (map casing cn) \<noteq> []"
      by (metis length_0_conv length_map length_sort)
    from assms False ne have r: "r = Some (sort (map casing cn))"
      by (simp add: notable_in_category_def Let_def cn_def casing_def split: if_splits)
    have c: "lower (casing n) = n \<and> casing n \<in> get_name ` set its" if "n \<in> set cn" for n
    proof -
      from that cn_set have "n \<in> (\<lambda>it. lower (get_name it)) ` set its"
        by auto
      from casing_lookup [OF this] show ?thesis
        by (auto simp: casing_def)
    qed
    have "lower ` set (sort (map casing cn)) = set cn"
      using c by (auto simp: image_iff) 
    moreover have "set (sort (map casing cn)) \<subseteq> get_name ` set its"
      using c by auto
    ultimately show ?thesis
      using r cn_set by simp
  qed
qed

lemma notable_loop_keys:
  "notable_loop nm d = Inr by_cat \<Longrightarrow> fst ` set by_cat \<subseteq> fst ` set nm"
proof (induction nm arbitrary: by_cat)
  case Nil
  then show ?case by simp
next
  case (Cons e nm)
  obtain c nl t where e: "e = (c, nl, t)"
    by (cases e)
  from Cons.prems obtain found later where
    "notable_loop nm d = Inr later"
    and b: "by_cat = (case found of None \<Rightarrow> later | Some names \<Rightarrow> (c, names) # later)"
    by (auto simp: e split: sum.splits)
  from Cons.IH [OF this(1)] show ?case
    by (auto simp: b e split: option.splits)
qed

lemma notable_loop_lookup:
  assumes "distinct (map fst nm)" and "notable_loop nm d = Inr by_cat" and "(c, nl, t) \<in> set nm"
  shows "notable_in_category nl (get_items d c) = Inr (map_of by_cat c)"
  using assms
proof (induction nm arbitrary: by_cat)
  case Nil
  then show ?case by simp
next
  case (Cons e nm)
  obtain c' nl' t' where e: "e = (c', nl', t')"
    by (cases e)
  from Cons.prems(2) obtain found later where
    f: "notable_in_category nl' (get_items d c') = Inr found"
    and l: "notable_loop nm d = Inr later"
    and b: "by_cat = (case found of None \<Rightarrow> later | Some names \<Rightarrow> (c', names) # later)"
    by (auto simp: e split: sum.splits)
  from Cons.prems(1) have fresh: "c' \<notin> fst ` set nm" and d': "distinct (map fst nm)"
    by (simp_all add: e)
  from notable_loop_keys [OF l] fresh have nl: "map_of later c' = None"
    by (auto simp: map_of_eq_None_iff)
  show ?case
  proof (cases "(c, nl, t) = e")
    case True
    then show ?thesis
      using f nl by (auto simp: e b split: option.splits)
  next
    case False
    with Cons.prems(3) have m: "(c, nl, t) \<in> set nm"
      by simp
    then have "c \<noteq> c'"
      using fresh by force
    with Cons.IH [OF d' l m] show ?thesis
      by (auto simp: b split: option.splits)
  qed
qed

lemma notable_loop_distinct:
  assumes "distinct (map fst nm)" and "notable_loop nm d = Inr by_cat"
  shows "distinct (map fst by_cat)"
  using assms
proof (induction nm arbitrary: by_cat)
  case Nil
  then show ?case by simp
next
  case (Cons e nm)
  obtain c nl t where e: "e = (c, nl, t)"
    by (cases e)
  from Cons.prems(2) obtain found later where
    l: "notable_loop nm d = Inr later"
    and b: "by_cat = (case found of None \<Rightarrow> later | Some names \<Rightarrow> (c, names) # later)"
    by (auto simp: e split: sum.splits)
  from Cons.prems(1) have fresh: "c \<notin> fst ` set nm" and d': "distinct (map fst nm)"
    by (simp_all add: e)
  from notable_loop_keys [OF l] fresh have "c \<notin> fst ` set later"
    by blast
  with Cons.IH [OF d' l] show ?case
    by (simp add: b split: option.splits)
qed

lemma map_of_sort_key_fst:
  assumes "distinct (map fst xs)"
  shows "map_of (sort_key fst xs) = map_of xs"
proof -
  have "distinct (map fst (sort_key fst xs))"
    using assms by (simp add: distinct_map)
  then show ?thesis
    using assms by (simp add: map_of_inject_set)
qed

text \<open>
  C7. The claim: the notable-items list that goes into the alert holds only allow-listed
  items that are new against the previous snapshot. \<open>_generate_change_summary\<close> is given
  the new snapshot only. With a previous snapshot whose seeds are Cacao and a new one
  whose seeds are Cacao and Beanstalk, the two projections that are hashed differ (an
  update is due), and the list names Cacao as well as Beanstalk.
\<close>

theorem change_summary_repeats_present_item:
  "relevant_data
      \<lparr>categories = [(''seeds'', [\<lparr>name = Some ''Cacao'', quantity = 2\<rparr>])],
       weather = WeatherDict (Some ''Rain''), other_keys = False\<rparr>
     \<noteq> relevant_data
      \<lparr>categories = [(''seeds'', [\<lparr>name = Some ''Cacao'', quantity = 2\<rparr>,
                                 \<lparr>name = Some ''Beanstalk'', quantity = 1\<rparr>])],
       weather = WeatherDict (Some ''Rain''), other_keys = False\<rparr>
   \<and> Some ''Cacao'' \<in> name ` set (get_items
        \<lparr>categories = [(''seeds'', [\<lparr>name = Some ''Cacao'', quantity = 2\<rparr>])],
         weather = WeatherDict (Some ''Rain''), other_keys = False\<rparr> ''seeds'')
   \<and> generate_change_summary
      \<lparr>categories = [(''seeds'', [\<lparr>name = Some ''Cacao'', quantity = 2\<rparr>,
                                 \<lparr>name = Some ''Beanstalk'', quantity = 1\<rparr>])],
       weather = WeatherDict (Some ''Rain''), other_keys = False\<rparr>
     = Inr [(''seeds'', [''Beanstalk'', ''Cacao''])]"
  by code_simp

text \<open>
  C7, as the code has it: for each category of \<open>NOTABLE_MAP\<close> the summary lists, by
  their names in the snapshot, exactly the items of the new snapshot whose lower-cased
  name is on the lower-cased allow-list of the category, whatever the previous snapshot
  held.
\<close>

theorem change_summary_lists_current_notables:
  assumes "generate_change_summary new_data = Inr summary" and "(c, nl, t) \<in> set NOTABLE_MAP"
  shows "lower ` set (case map_of summary c of None \<Rightarrow> [] | Some ns \<Rightarrow> ns)
           = (\<lambda>it. lower (get_name it)) ` {it \<in> set (get_items new_data c). has_name it} \<inter> lower ` set nl"
proof -
  from assms(1) obtain by_cat where
    g: "notable_loop NOTABLE_MAP new_data = Inr by_cat" and s: "summary = sort_key fst by_cat"
    by (auto simp: generate_change_summary_def get_notable_items_def split: sum.splits)
  have d: "distinct (map fst NOTABLE_MAP)"
    by (simp add: NOTABLE_MAP_def)
  have "map_of summary c = map_of by_cat c"
    using notable_loop_distinct [OF d g] by (simp add: s map_of_sort_key_fst)
  with notable_loop_lookup [OF d g assms(2)]
  have "notable_in_category nl (get_items new_data c) = Inr (map_of summary c)"
    by simp
  from notable_in_category_names [OF this] show ?thesis
    by blast
qed

theorem change_summary_lists_current_notables_witness:
  "generate_change_summary
      \<lparr>categories = [(''seeds'', [\<lparr>name = Some ''Cacao'', quantity = 2\<rparr>,
                                 \<lparr>name = Some ''Beanstalk'', quantity = 1\<rparr>,
                                 \<lparr>name = Some ''Carrot'', quantity = 5\<rparr>])],
       weather = WeatherDict (Some ''Rain''), other_keys = False\<rparr>
     = Inr [(''seeds'', [''Beanstalk'', ''Cacao''])]
   \<and> (''seeds'', NOTABLE_SEEDS, ''Seeds'') \<in> set NOTABLE_MAP
   \<and> lower ` set (case map_of [(''seeds'', [''Beanstalk'', ''Cacao''])] ''seeds'' of
                    None \<Rightarrow> [] | Some ns \<Rightarrow> ns)
      = (\<lambda>it. lower (get_name it)) `
          {it \<in> set (get_items
                      \<lparr>categories = [(''seeds'', [\<lparr>name = Some ''Cacao'', quantity = 2\<rparr>,
                                                 \<lparr>name = Some ''Beanstalk'', quantity = 1\<rparr>,
                                                 \<lparr>name = Some ''Carrot'', quantity = 5\<rparr>])],
                       weather = WeatherDict (Some ''Rain''), other_keys = False\<rparr> ''seeds''). has_name it}
        \<inter> lower ` set NOTABLE_SEEDS"
proof -
  have h1: "generate_change_summary
      \<lparr>categories = [(''seeds'', [\<lparr>name = Some ''Cacao'', quantity = 2\<rparr>,
                                 \<lparr>name = Some ''Beanstalk'', quantity = 1\<rparr>,
                                 \<lparr>name = Some ''Carrot'', quantity = 5\<rparr>])],
       weather = WeatherDict (Some ''Rain''), other_keys = False\<rparr>
     = Inr [(''seeds'', [''Beanstalk'', ''Cacao''])]"
    by code_simp
  have h2: "(''seeds'', NOTABLE_SEEDS, ''Seeds'') \<in> set NOTABLE_MAP"
    by (simp add: NOTABLE_MAP_def)
  show ?thesis
    by (intro conjI h1 h2 change_summary_lists_current_notables [OF h1 h2])
qed

section \<open>The fingerprint of a snapshot\<close>

lemma sort_mset_cong:
  fixes xs ys :: "('a::linorder) list"
  assumes "mset xs = mset ys"
  shows "sort xs = sort ys"
  by (rule properties_for_sort) (simp_all add: assms)

lemma relevant_names_cong:
  assumes "mset (map (\<lambda>it. lower (get_name it)) (filter has_name its1))
         = mset (map (\<lambda>it. lower (get_name it)) (filter has_name its2))"
  shows "relevant_names its1 = relevant_names its2"
  unfolding relevant_names_def using assms by (rule sort_mset_cong)

text \<open>
  C8. The claim: two payloads with the same weather label whose categories hold the same
  sets of item names have the same fingerprint. The names are sorted, not made a set: a
  payload that lists Carrot twice among its seeds and one that lists it once have the same
  set of names in every category and the same weather, and the projections that are
  serialised and hashed differ (\<open>["carrot","carrot"]\<close> against \<open>["carrot"]\<close>), so the
  equality of the fingerprints does not follow for the digest function.
\<close>

theorem fingerprint_counts_duplicates:
  "(\<forall>c. set (map get_name (filter has_name (get_items
        \<lparr>categories = [(''seeds'', [\<lparr>name = Some ''Carrot'', quantity = 1\<rparr>,
                                   \<lparr>name = Some ''Carrot'', quantity = 3\<rparr>])],
         weather = WeatherDict (Some ''Rain''), other_keys = False\<rparr> c)))
      = set (map get_name (filter has_name (get_items
        \<lparr>categories = [(''seeds'', [\<lparr>name = Some ''Carrot'', quantity = 1\<rparr>])],
         weather = WeatherDict (Some ''Rain''), other_keys = False\<rparr> c))))
   \<and> get_weather_type
        \<lparr>categories = [(''seeds'', [\<lparr>name = Some ''Carrot'', quantity = 1\<rparr>,
                                   \<lparr>name = Some ''Carrot'', quantity = 3\<rparr>])],
         weather = WeatherDict (Some ''Rain''), other_keys = False\<rparr>
     = get_weather_type
        \<lparr>categories = [(''seeds'', [\<lparr>name = Some ''Carrot'', quantity = 1\<rparr>])],
         weather = WeatherDict (Some ''Rain''), other_keys = False\<rparr>
   \<and> relevant_data
        \<lparr>categories = [(''seeds'', [\<lparr>name = Some ''Carrot'', quantity = 1\<rparr>,
                                   \<lparr>name = Some ''Carrot'', quantity = 3\<rparr>])],
         weather = WeatherDict (Some ''Rain''), other_keys = False\<rparr>
     = \<lparr>weather_label = ''Rain'', items = [(''seeds'', [''carrot'', ''carrot''])]\<rparr>
   \<and> relevant_data
        \<lparr>categories = [(''seeds'', [\<lparr>name = Some ''Carrot'', quantity = 1\<rparr>])],
         weather = WeatherDict (Some ''Rain''), other_keys = False\<rparr>
     = \<lparr>weather_label = ''Rain'', items = [(''seeds'', [''carrot''])]\<rparr>
   \<and> \<not> (\<forall>md5_json. calculate_data_hash md5_json
        \<lparr>categories = [(''seeds'', [\<lparr>name = Some ''Carrot'', quantity = 1\<rparr>,
                                   \<lparr>name = Some ''Carrot'', quantity = 3\<rparr>])],
         weather = WeatherDict (Some ''Rain''), other_keys = False\<rparr>
     = calculate_data_hash md5_json
        \<lparr>categories = [(''seeds'', [\<lparr>name = Some ''Carrot'', quantity = 1\<rparr>])],
         weather = WeatherDict (Some ''Rain''), other_keys = False\<rparr>)"
proof -
  let ?d1 = "\<lparr>categories = [(''seeds'', [\<lparr>name = Some ''Carrot'', quantity = 1\<rparr>,
                                   \<lparr>name = Some ''Carrot'', quantity = 3\<rparr>])],
         weather = WeatherDict (Some ''Rain''), other_keys = False\<rparr>"
  let ?d2 = "\<lparr>categories = [(''seeds'', [\<lparr>name = Some ''Carrot'', quantity = 1\<rparr>])],
         weather = WeatherDict (Some ''Rain''), other_keys = False\<rparr>"
  have sets: "\<forall>c. set (map get_name (filter has_name (get_items ?d1 c)))
                = set (map get_name (filter has_name (get_items ?d2 c)))"
  proof
    fix c :: string
    show "set (map get_name (filter has_name (get_items ?d1 c)))
        = set (map get_name (filter has_name (get_items ?d2 c)))"
    proof (cases "c = ''seeds''")
      case True
      then show ?thesis
        by (simp add: get_items_def has_name_def get_name_def)
    next
      case False
      then show ?thesis
        by (simp add: get_items_def)
    qed
  qed
  have w: "get_weather_type ?d1 = get_weather_type ?d2"
    by code_simp
  have r1: "relevant_data ?d1 = \<lparr>weather_label = ''Rain'', items = [(''seeds'', [''carrot'', ''carrot''])]\<rparr>"
    by code_simp
  have r2: "relevant_data ?d2 = \<lparr>weather_label = ''Rain'', items = [(''seeds'', [''carrot''])]\<rparr>"
    by code_simp
  have ne: "\<not> data_empty ?d1" "\<not> data_empty ?d2"
    by (simp_all add: data_empty_def)
  have "calculate_data_hash (\<lambda>rd. concat (concat (map snd (items rd)))) ?d1
      \<noteq> calculate_data_hash (\<lambda>rd. concat (concat (map snd (items rd)))) ?d2"
    using ne by (simp add: calculate_data_hash_def r1 r2)
  then have diff: "\<not> (\<forall>md5_json. calculate_data_hash md5_json ?d1 = calculate_data_hash md5_json ?d2)"
    by blast
  show ?thesis
    by (intro conjI sets w r1 r2 diff)
qed

text \<open>
  C8, as the code has it: two payloads that are both empty or both not, carry the same
  weather label and, in each category of \<open>CATEGORY_MAPPING\<close>, are both empty or both
  not and hold the same multiset of lower-cased non-empty item names, have the same
  fingerprint, whatever the order of the items, the letter case of the names and the
  quantities are.
\<close>

theorem calculate_data_hash_same_names:
  assumes "data_empty d1 \<longleftrightarrow> data_empty d2"
    and "get_weather_type d1 = get_weather_type d2"
    and "\<forall>c \<in> set CATEGORY_MAPPING.
           (get_items d1 c = [] \<longleftrightarrow> get_items d2 c = [])
           \<and> mset (map (\<lambda>it. lower (get_name it)) (filter has_name (get_items d1 c)))
             = mset (map (\<lambda>it. lower (get_name it)) (filter has_name (get_items d2 c)))"
  shows "calculate_data_hash md5_json d1 = calculate_data_hash md5_json d2"
proof -
  have f: "filter (\<lambda>c. get_items d1 c \<noteq> []) (sort CATEGORY_MAPPING)
         = filter (\<lambda>c. get_items d2 c \<noteq> []) (sort CATEGORY_MAPPING)"
  proof (rule filter_cong [OF refl])
    fix c assume "c \<in> set (sort CATEGORY_MAPPING)"
    then have "c \<in> set CATEGORY_MAPPING"
      by simp
    with assms(3) show "(get_items d1 c \<noteq> []) = (get_items d2 c \<noteq> [])"
      by simp
  qed
  have m: "map (\<lambda>c. (c, relevant_names (get_items d1 c))) (filter (\<lambda>c. get_items d2 c \<noteq> []) (sort CATEGORY_MAPPING))
         = map (\<lambda>c. (c, relevant_names (get_items d2 c))) (filter (\<lambda>c. get_items d2 c \<noteq> []) (sort CATEGORY_MAPPING))"
  proof (rule map_cong [OF refl])
    fix c assume "c \<in> set (filter (\<lambda>c. get_items d2 c \<noteq> []) (sort CATEGORY_MAPPING))"
    then have "c \<in> set CATEGORY_MAPPING"
      by simp
    with assms(3) have "relevant_names (get_items d1 c) = relevant_names (get_items d2 c)"
      by (intro relevant_names_cong) blast
    then show "(c, relevant_names (get_items d1 c)) = (c, relevant_names (get_items d2 c))"
      by simp
  qed
  have "relevant_data d1 = relevant_data d2"
    by (simp add: relevant_data_def assms(2) f m)
  then show ?thesis
    using assms(1) by (simp add: calculate_data_hash_def)
qed

theorem calculate_data_hash_same_names_witness:
  "\<forall>md5_json.
     calculate_data_hash md5_json
        \<lparr>categories = [(''seeds'', [\<lparr>name = Some ''Carrot'', quantity = 1\<rparr>,
                                   \<lparr>name = Some ''Tomato'', quantity = 2\<rparr>]),
                       (''eggs'', [\<lparr>name = Some ''Bee Egg'', quantity = 1\<rparr>])],
         weather = WeatherDict (Some ''Rain''), other_keys = True\<rparr>
   = calculate_data_hash md5_json
        \<lparr>categories = [(''eggs'', [\<lparr>name = Some ''bee egg'', quantity = 4\<rparr>]),
                       (''seeds'', [\<lparr>name = Some ''TOMATO'', quantity = 7\<rparr>,
                                   \<lparr>name = Some ''carrot'', quantity = 9\<rparr>])],
         weather = WeatherDict (Some ''Rain''), other_keys = False\<rparr>"
proof
  fix md5_json :: "relevant \<Rightarrow> string"
  let ?d1 = "\<lparr>categories = [(''seeds'', [\<lparr>name = Some ''Carrot'', quantity = 1\<rparr>,
                                   \<lparr>name = Some ''Tomato'', quantity = 2\<rparr>]),
                       (''eggs'', [\<lparr>name = Some ''Bee Egg'', quantity = 1\<rparr>])],
         weather = WeatherDict (Some ''Rain''), other_keys = True\<rparr>"
  let ?d2 = "\<lparr>categories = [(''eggs'', [\<lparr>name = Some ''bee egg'', quantity = 4\<rparr>]),
                       (''seeds'', [\<lparr>name = Some ''TOMATO'', quantity = 7\<rparr>,
                                   \<lparr>name = Some ''carrot'', quantity = 9\<rparr>])],
         weather = WeatherDict (Some ''Rain''), other_keys = False\<rparr>"
  have e: "data_empty ?d1 \<longleftrightarrow> data_empty ?d2"
    by (simp add: data_empty_def)
  have w: "get_weather_type ?d1 = get_weather_type ?d2"
    by code_simp
  have c: "\<forall>c \<in> set CATEGORY_MAPPING.
           (get_items ?d1 c = [] \<longleftrightarrow> get_items ?d2 c = [])
           \<and> mset (map (\<lambda>it. lower (get_name it)) (filter has_name (get_items ?d1 c)))
             = mset (map (\<lambda>it. lower (get_name it)) (filter has_name (get_items ?d2 c)))"
    by (simp add: CATEGORY_MAPPING_def get_items_def has_name_def get_name_def lower_def lower_char_def)
  show "calculate_data_hash md5_json ?d1 = calculate_data_hash md5_json ?d2"
    by (rule calculate_data_hash_same_names [OF e w c])
qed

section \<open>Failures stay with their channel\<close>

lemma delete_previous_cong:
  "bot_config db1 ch = bot_config db2 ch \<Longrightarrow> delete_previous env ch db1 = delete_previous env ch db2"
  by (simp add: delete_previous_def)

lemma delete_previous_tagged:
  "delete_previous env ch db = Inr acts \<Longrightarrow> \<forall>a \<in> set acts. channel_of a = ch"
  by (auto simp: delete_previous_def split: option.splits if_splits)

lemma send_notification_local:
  assumes "send_notification env ch db = (r, db', acts)"
  shows "stock_status_messages db' = stock_status_messages db
       \<and> (\<forall>c. c \<noteq> ch \<longrightarrow> bot_config db' c = bot_config db c)
       \<and> (\<forall>a \<in> set acts. channel_of a = ch)"
  using assms delete_previous_tagged [of env ch db]
  by (auto simp: send_notification_def split: sum.splits if_splits)

lemma send_notification_cong:
  assumes "bot_config db1 ch = bot_config db2 ch"
    and "send_notification env ch db1 = (r, db1', acts)"
  shows "\<exists>db2'. send_notification env ch db2 = (r, db2', acts)
              \<and> bot_config db1' ch = bot_config db2' ch
              \<and> stock_status_messages db2' = stock_status_messages db2"
  using assms(2) delete_previous_cong [OF assms(1), of env] assms(1)
  by (auto simp: send_notification_def split: sum.splits if_splits)

lemma update_status_local:
  assumes "update_status env ch db = (r, db', acts)"
  shows "bot_config db' = bot_config db
       \<and> (\<forall>c. c \<noteq> ch \<longrightarrow> stock_status_messages db' c = stock_status_messages db c)
       \<and> (\<forall>a \<in> set acts. channel_of a = ch)"
  using assms
  by (auto simp: update_status_def Let_def split: sum.splits option.splits if_splits)

lemma update_status_cong:
  assumes "stock_status_messages db1 ch = stock_status_messages db2 ch"
    and "update_status env ch db1 = (r, db1', acts)"
  shows "\<exists>db2'. update_status env ch db2 = (r, db2', acts)
              \<and> stock_status_messages db1' ch = stock_status_messages db2' ch
              \<and> bot_config db2' = bot_config db2"
  using assms
  by (auto simp: update_status_def Let_def split: sum.splits option.splits if_splits)

lemma update_channel_local:
  assumes "update_channel env ch has_summary db = (r, db', acts)"
  shows "(\<forall>c. c \<noteq> ch \<longrightarrow> stock_status_messages db' c = stock_status_messages db c
                         \<and> bot_config db' c = bot_config db c)
       \<and> (\<forall>a \<in> set acts. channel_of a = ch)"
proof -
  obtain r1 db1 acts1 where
    n: "(if has_summary then send_notification env ch db else (None, db, [])) = (r1, db1, acts1)"
    by (metis prod_cases3)
  have l1: "stock_status_messages db1 = stock_status_messages db
       \<and> (\<forall>c. c \<noteq> ch \<longrightarrow> bot_config db1 c = bot_config db c)
       \<and> (\<forall>a \<in> set acts1. channel_of a = ch)"
  proof (cases has_summary)
    case True
    with n show ?thesis
      using send_notification_local [of env ch db r1 db1 acts1] by simp
  next
    case False
    with n show ?thesis
      by simp
  qed
  show ?thesis
  proof (cases r1)
    case (Some e)
    with assms n l1 show ?thesis
      by (simp add: update_channel_def)
  next
    case None
    obtain r2 db2 acts2 where s: "update_status env ch db1 = (r2, db2, acts2)"
      by (metis prod_cases3)
    from update_status_local [OF s] l1
    have l2: "(\<forall>c. c \<noteq> ch \<longrightarrow> stock_status_messages db2 c = stock_status_messages db c
                         \<and> bot_config db2 c = bot_config db c)
            \<and> (\<forall>a \<in> set (acts1 @ acts2). channel_of a = ch)"
      by auto
    from assms n None s have "db' = db2 \<and> (acts = acts1 @ acts2 \<or> (\<exists>e. acts = acts1 @ acts2 @ [LoggedError ch e]))"
      by (auto simp: update_channel_def split: option.splits if_splits)
    with l2 show ?thesis
      by auto
  qed
qed

lemma update_channel_cong:
  assumes "stock_status_messages dbA ch = stock_status_messages dbB ch"
    and "bot_config dbA ch = bot_config dbB ch"
    and "update_channel env ch has_summary dbA = (r, dbA', acts)"
  shows "\<exists>dbB'. update_channel env ch has_summary dbB = (r, dbB', acts)
              \<and> stock_status_messages dbA' ch = stock_status_messages dbB' ch
              \<and> bot_config dbA' ch = bot_config dbB' ch"
proof -
  obtain r1 dbA1 acts1 where
    nA: "(if has_summary then send_notification env ch dbA else (None, dbA, [])) = (r1, dbA1, acts1)"
    by (metis prod_cases3)
  have "\<exists>dbB1. (if has_summary then send_notification env ch dbB else (None, dbB, [])) = (r1, dbB1, acts1)
          \<and> bot_config dbA1 ch = bot_config dbB1 ch
          \<and> stock_status_messages dbA1 ch = stock_status_messages dbB1 ch"
  proof (cases has_summary)
    case True
    with nA have sA: "send_notification env ch dbA = (r1, dbA1, acts1)"
      by simp
    from send_notification_cong [OF assms(2) sA] obtain dbB1 where
      "send_notification env ch dbB = (r1, dbB1, acts1)"
      "bot_config dbA1 ch = bot_config dbB1 ch"
      "stock_status_messages dbB1 = stock_status_messages dbB"
      by blast
    moreover from send_notification_local [OF sA] have "stock_status_messages dbA1 = stock_status_messages dbA"
      by simp
    ultimately show ?thesis
      using True assms(1) by simp
  next
    case False
    with nA assms(1,2) show ?thesis
      by auto
  qed
  then obtain dbB1 where
    nB: "(if has_summary then send_notification env ch dbB else (None, dbB, [])) = (r1, dbB1, acts1)"
    and b1: "bot_config dbA1 ch = bot_config dbB1 ch"
    and s1: "stock_status_messages dbA1 ch = stock_status_messages dbB1 ch"
    by blast
  show ?thesis
  proof (cases r1)
    case (Some e)
    with assms(3) nA nB b1 s1 show ?thesis
      by (auto simp: update_channel_def)
  next
    case None
    obtain r2 dbA2 acts2 where uA: "update_status env ch dbA1 = (r2, dbA2, acts2)"
      by (metis prod_cases3)
    from update_status_cong [OF s1 uA] obtain dbB2 where
      uB: "update_status env ch dbB1 = (r2, dbB2, acts2)"
      and s2: "stock_status_messages dbA2 ch = stock_status_messages dbB2 ch"
      and b2: "bot_config dbB2 = bot_config dbB1"
      by blast
    from update_status_local [OF uA] have "bot_config dbA2 = bot_config dbA1"
      by simp
    with b1 b2 have b3: "bot_config dbA2 ch = bot_config dbB2 ch"
      by simp
    from assms(3) nA None uA have A: "dbA' = dbA2"
      by (auto simp: update_channel_def split: option.splits if_splits)
    from assms(3) nA nB None uA uB
    have "update_channel env ch has_summary dbB = (r, dbB2, acts)"
      by (auto simp: update_channel_def split: option.splits if_splits)
    with A s2 b3 show ?thesis
      by blast
  qed
qed

lemma gather_spec:
  assumes "distinct chs" and "gather env hs chs db = (results, db', acts)"
  shows "map fst results = chs
       \<and> (\<forall>c. c \<notin> set chs \<longrightarrow> stock_status_messages db' c = stock_status_messages db c
                              \<and> bot_config db' c = bot_config db c)
       \<and> (\<forall>a \<in> set acts. channel_of a \<in> set chs)
       \<and> (\<forall>ch \<in> set chs. \<forall>r d a. update_channel (env ch) ch hs db = (r, d, a) \<longrightarrow>
             (ch, r) \<in> set results
             \<and> stock_status_messages db' ch = stock_status_messages d ch
             \<and> bot_config db' ch = bot_config d ch
             \<and> filter (\<lambda>x. channel_of x = ch) acts = a)"
  using assms
proof (induction chs arbitrary: db results db' acts)
  case Nil
  then show ?case by simp
next
  case (Cons c0 rest)
  obtain r0 db1 a0 where u0: "update_channel (env c0) c0 hs db = (r0, db1, a0)"
    by (metis prod_cases3)
  obtain rs db2 a2 where g: "gather env hs rest db1 = (rs, db2, a2)"
    by (metis prod_cases3)
  from Cons.prems(2) u0 g have res: "results = (c0, r0) # rs" and db': "db' = db2" and acts: "acts = a0 @ a2"
    by simp_all
  from Cons.prems(1) have fresh: "c0 \<notin> set rest" and d: "distinct rest"
    by simp_all
  note ih = Cons.IH [OF d g]
  note l0 = update_channel_local [OF u0]
  from ih have names: "map fst rs = rest"
    and frame: "\<And>c. c \<notin> set rest \<Longrightarrow> stock_status_messages db2 c = stock_status_messages db1 c
                              \<and> bot_config db2 c = bot_config db1 c"
    and tags: "\<And>x. x \<in> set a2 \<Longrightarrow> channel_of x \<in> set rest"
    and each: "\<And>ch r d a. ch \<in> set rest \<Longrightarrow> update_channel (env ch) ch hs db1 = (r, d, a) \<Longrightarrow>
             (ch, r) \<in> set rs
             \<and> stock_status_messages db2 ch = stock_status_messages d ch
             \<and> bot_config db2 ch = bot_config d ch
             \<and> filter (\<lambda>x. channel_of x = ch) a2 = a"
    by blast+
  from l0 have tag0: "\<And>x. x \<in> set a0 \<Longrightarrow> channel_of x = c0"
    by blast
  have p1: "map fst results = c0 # rest"
    by (simp add: res names)
  have p2: "\<forall>c. c \<notin> set (c0 # rest) \<longrightarrow> stock_status_messages db' c = stock_status_messages db c
                              \<and> bot_config db' c = bot_config db c"
    using frame l0 by (simp add: db')
  have p3: "\<forall>a \<in> set acts. channel_of a \<in> set (c0 # rest)"
    using tags tag0 by (auto simp: acts)
  have p4: "(ch, r) \<in> set results
             \<and> stock_status_messages db' ch = stock_status_messages d ch
             \<and> bot_config db' ch = bot_config d ch
             \<and> filter (\<lambda>x. channel_of x = ch) acts = a"
    if m: "ch \<in> set (c0 # rest)" and u: "update_channel (env ch) ch hs db = (r, d, a)" for ch r d a
  proof (cases "ch = c0")
    case True
    with u u0 have e: "r = r0" "d = db1" "a = a0"
      by simp_all
    have "filter (\<lambda>x. channel_of x = c0) a0 = a0"
      using tag0 by (simp add: filter_id_conv)
    moreover have "filter (\<lambda>x. channel_of x = c0) a2 = []"
      using tags fresh by (auto simp: filter_empty_conv)
    ultimately show ?thesis
      using frame [OF fresh] by (simp add: True e res db' acts)
  next
    case False
    with m have mr: "ch \<in> set rest"
      by simp
    from l0 False have same: "stock_status_messages db ch = stock_status_messages db1 ch"
      "bot_config db ch = bot_config db1 ch"
      by simp_all
    from update_channel_cong [OF same u] obtain d1 where
      u1: "update_channel (env ch) ch hs db1 = (r, d1, a)"
      and s: "stock_status_messages d ch = stock_status_messages d1 ch"
      and b: "bot_config d ch = bot_config d1 ch"
      by blast
    have "filter (\<lambda>x. channel_of x = ch) a0 = []"
      using tag0 False by (auto simp: filter_empty_conv)
    with each [OF mr u1] show ?thesis
      by (simp add: res db' acts s b)
  qed
  show ?case
    using p1 p2 p3 p4 by blast
qed

lemma failure_log_other:
  "ch \<notin> fst ` set results \<Longrightarrow>
     filter (\<lambda>x. channel_of x = ch)
       (concat (map (\<lambda>(c, res). case res of None \<Rightarrow> [] | Some e \<Rightarrow> [LoggedFailure c e]) results)) = []"
  by (induction results) (auto split: option.splits)

lemma failure_log_of:
  assumes "distinct (map fst results)" and "(ch, r) \<in> set results"
  shows "filter (\<lambda>x. channel_of x = ch)
           (concat (map (\<lambda>(c, res). case res of None \<Rightarrow> [] | Some e \<Rightarrow> [LoggedFailure c e]) results))
         = (case r of None \<Rightarrow> [] | Some e \<Rightarrow> [LoggedFailure ch e])"
  using assms
proof (induction results)
  case Nil
  then show ?case by simp
next
  case (Cons p rest)
  obtain c0 r0 where p: "p = (c0, r0)"
    by (cases p)
  from Cons.prems(1) have fresh: "c0 \<notin> fst ` set rest" and d: "distinct (map fst rest)"
    by (simp_all add: p)
  show ?case
  proof (cases "(ch, r) = p")
    case True
    then have e: "ch = c0" "r = r0"
      by (simp_all add: p)
    from fresh have "ch \<notin> fst ` set rest"
      by (simp add: e)
    from failure_log_other [OF this] show ?thesis
      by (simp add: p e split: option.splits)
  next
    case False
    with Cons.prems(2) have m: "(ch, r) \<in> set rest"
      by simp
    with fresh have "ch \<noteq> c0"
      by force
    with Cons.IH [OF d m] show ?thesis
      by (simp add: p split: option.splits)
  qed
qed

text \<open>
  C9. When an update goes to the channels the bot finds, every channel's delivery has
  the result, leaves the rows of its channel and performs the calls that
  \<open>_update_channel\<close> yields for that channel alone from the database as it was before
  the update: what the other channels do, raise included, changes none of it. The result
  list has one entry per channel, in order, and a delivery that raised is logged with the
  channel and the exception.
\<close>

theorem handle_update_isolates_failures:
  assumes "distinct all_channel_ids"
    and "generate_change_summary new_data = Inr change_summary"
    and "handle_update get_channel env all_channel_ids new_data db = Inr (results, db', acts)"
    and "ch \<in> set all_channel_ids" and "get_channel ch"
    and "update_channel (env ch) ch (change_summary \<noteq> []) db = (r, d, a)"
  shows "map fst results = filter get_channel all_channel_ids
       \<and> (ch, r) \<in> set results
       \<and> stock_status_messages db' ch = stock_status_messages d ch
       \<and> bot_config db' ch = bot_config d ch
       \<and> filter (\<lambda>x. channel_of x = ch) acts
           = a @ (case r of None \<Rightarrow> [] | Some e \<Rightarrow> [LoggedFailure ch e])"
proof -
  let ?chs = "filter get_channel all_channel_ids"
  let ?warn = "map ChannelNotFound (filter (\<lambda>c. \<not> get_channel c) all_channel_ids)"
  let ?fail = "\<lambda>rs. concat (map (\<lambda>(c, res). case res of None \<Rightarrow> [] | Some e \<Rightarrow> [LoggedFailure c e]) rs)"
  obtain rs dbg ga where g: "gather env (change_summary \<noteq> []) ?chs db = (rs, dbg, ga)"
    by (metis prod_cases3)
  from assms(4) have ne: "all_channel_ids \<noteq> []"
    by auto
  from assms(3) ne assms(2) g have res: "results = rs" and db': "db' = dbg"
    and acts: "acts = ?warn @ ga @ ?fail rs"
    by (auto simp: handle_update_def Let_def)
  from assms(1) have dc: "distinct ?chs"
    by simp
  from assms(4,5) have m: "ch \<in> set ?chs"
    by simp
  note s = gather_spec [OF dc g]
  from s have names: "map fst rs = ?chs"
    by blast
  from s m assms(6) have own: "(ch, r) \<in> set rs
       \<and> stock_status_messages dbg ch = stock_status_messages d ch
       \<and> bot_config dbg ch = bot_config d ch
       \<and> filter (\<lambda>x. channel_of x = ch) ga = a"
    by blast
  have w: "filter (\<lambda>x. channel_of x = ch) ?warn = []"
    using assms(5) by (auto simp: filter_empty_conv)
  from dc names have "distinct (map fst rs)"
    by simp
  from failure_log_of [OF this] own
  have f: "filter (\<lambda>x. channel_of x = ch) (?fail rs) = (case r of None \<Rightarrow> [] | Some e \<Rightarrow> [LoggedFailure ch e])"
    by blast
  show ?thesis
    using names own w f by (simp add: res db' acts)
qed

theorem handle_update_isolates_failures_witness:
  "handle_update (\<lambda>c. True)
      (\<lambda>c. \<lparr>on_fetch_notification = None, on_delete_notification = None,
             on_send_notification = Inr (20 + c),
             on_fetch_status = None, on_edit_status = None,
             on_send_status = (if c = 2 then Inl OtherException else Inr (10 + c))\<rparr>)
      [1, 2, 3]
      \<lparr>categories = [(''seeds'', [\<lparr>name = Some ''Cacao'', quantity = 2\<rparr>])],
       weather = WeatherDict (Some ''Rain''), other_keys = False\<rparr>
      \<lparr>stock_status_messages = Map.empty, bot_config = Map.empty\<rparr>
     = Inr ([(1, None), (2, Some OtherException), (3, None)],
            \<lparr>stock_status_messages = [1 \<mapsto> 11, 3 \<mapsto> 13], bot_config = [1 \<mapsto> 21, 2 \<mapsto> 22, 3 \<mapsto> 23]\<rparr>,
            [SentNotification 1 21, SentStatus 1 11, SentNotification 2 22,
             SentNotification 3 23, SentStatus 3 13, LoggedFailure 2 OtherException])
   \<and> (map fst [(1 :: int, None), (2, Some OtherException), (3, None)] = filter (\<lambda>c. True) [1, 2, 3]
       \<and> (3 :: int, None) \<in> set [(1, None), (2, Some OtherException), (3, None)]
       \<and> stock_status_messages
            \<lparr>stock_status_messages = [1 \<mapsto> 11, 3 \<mapsto> 13], bot_config = [1 \<mapsto> 21, 2 \<mapsto> 22, 3 \<mapsto> 23]\<rparr> 3
          = stock_status_messages \<lparr>stock_status_messages = [3 \<mapsto> 13], bot_config = [3 \<mapsto> 23]\<rparr> 3
       \<and> bot_config
            \<lparr>stock_status_messages = [1 \<mapsto> 11, 3 \<mapsto> 13], bot_config = [1 \<mapsto> 21, 2 \<mapsto> 22, 3 \<mapsto> 23]\<rparr> 3
          = bot_config \<lparr>stock_status_messages = [3 \<mapsto> 13], bot_config = [3 \<mapsto> 23]\<rparr> 3
       \<and> filter (\<lambda>x. channel_of x = 3)
            [SentNotification 1 21, SentStatus 1 11, SentNotification 2 22,
             SentNotification 3 23, SentStatus 3 13, LoggedFailure 2 OtherException]
          = [SentNotification 3 23, SentStatus 3 13] @ (case None of None \<Rightarrow> [] | Some e \<Rightarrow> [LoggedFailure 3 e]))"
proof -
  let ?env = "\<lambda>c::int. \<lparr>on_fetch_notification = None, on_delete_notification = None,
             on_send_notification = Inr (20 + c),
             on_fetch_status = None, on_edit_status = None,
             on_send_status = (if c = 2 then Inl OtherException else Inr (10 + c))\<rparr>"
  let ?data = "\<lparr>categories = [(''seeds'', [\<lparr>name = Some ''Cacao'', quantity = 2\<rparr>])],
       weather = WeatherDict (Some ''Rain''), other_keys = False\<rparr>"
  let ?db = "\<lparr>stock_status_messages = Map.empty, bot_config = Map.empty\<rparr>"
  have h1: "distinct [1, 2, 3 :: int]"
    by simp
  have h2: "generate_change_summary ?data = Inr [(''seeds'', [''Cacao''])]"
    by code_simp
  have ne: "[(''seeds'', [''Cacao''])] \<noteq> []"
    by simp
  have u: "update_channel (?env c) c True ?db
         = (if c = 2 then (Some OtherException, \<lparr>stock_status_messages = Map.empty, bot_config = [c \<mapsto> 20 + c]\<rparr>,
                           [SentNotification c (20 + c)])
            else (None, \<lparr>stock_status_messages = [c \<mapsto> 10 + c], bot_config = [c \<mapsto> 20 + c]\<rparr>,
                  [SentNotification c (20 + c), SentStatus c (10 + c)]))" for c
    by (simp add: update_channel_def send_notification_def delete_previous_def update_status_def
        is_http_exception_def Let_def)
  have h3: "handle_update (\<lambda>c. True) ?env [1, 2, 3] ?data ?db
     = Inr ([(1, None), (2, Some OtherException), (3, None)],
            \<lparr>stock_status_messages = [1 \<mapsto> 11, 3 \<mapsto> 13], bot_config = [1 \<mapsto> 21, 2 \<mapsto> 22, 3 \<mapsto> 23]\<rparr>,
            [SentNotification 1 21, SentStatus 1 11, SentNotification 2 22,
             SentNotification 3 23, SentStatus 3 13, LoggedFailure 2 OtherException])"
    by (simp add: handle_update_def h2 update_channel_def send_notification_def delete_previous_def
        update_status_def is_http_exception_def Let_def)
  have h4: "(3::int) \<in> set [1, 2, 3]"
    by simp
  have h5: "(\<lambda>c::int. True) 3"
    by simp
  have h6: "update_channel (?env 3) 3 ([(''seeds'', [''Cacao''])] \<noteq> []) ?db
     = (None, \<lparr>stock_status_messages = [3 \<mapsto> 13], bot_config = [3 \<mapsto> 23]\<rparr>,
        [SentNotification 3 23, SentStatus 3 13])"
    using u [of 3] by simp
  show ?thesis
    by (intro conjI [OF h3] handle_update_isolates_failures [OF h1 h2 h3 h4 h5 h6])
qed

end
